theory Spec2Isabelle
  imports Complex_Main "HOL-Library.Word"
begin

section \<open>JavaScript strings\<close>

text \<open>
  A JavaScript string is a sequence of 16-bit code units. Literals of the source are
  ASCII and are written through \<open>js\<close>.
\<close>

type_synonym code_unit = "16 word"
type_synonym jsstring = "code_unit list"

definition js :: "string \<Rightarrow> jsstring" where
  "js s = map of_char s"

text \<open>ECMAScript \<open>LineTerminator\<close>: LF, CR, U+2028, U+2029.\<close>

definition is_line_terminator :: "code_unit \<Rightarrow> bool" where
  "is_line_terminator c = (c = 0x0A \<or> c = 0x0D \<or> c = 0x2028 \<or> c = 0x2029)"

text \<open>
  The class \<open>\s\<close>, which is also what \<open>String.prototype.trim\<close> strips:
  \<open>WhiteSpace\<close> (TAB, VT, FF, SP, NBSP, ZWNBSP and the space separators) together with
  the line terminators.
\<close>

definition is_space :: "code_unit \<Rightarrow> bool" where
  "is_space c =
     (c = 0x09 \<or> c = 0x0B \<or> c = 0x0C \<or> c = 0x20 \<or> c = 0xA0 \<or> c = 0xFEFF \<or>
      c = 0x1680 \<or> (0x2000 \<le> c \<and> c \<le> 0x200A) \<or> c = 0x202F \<or> c = 0x205F \<or>
      c = 0x3000 \<or> is_line_terminator c)"

text \<open>The class \<open>\d\<close>.\<close>

definition is_digit :: "code_unit \<Rightarrow> bool" where
  "is_digit c = (0x30 \<le> c \<and> c \<le> 0x39)"

text \<open>The atom \<open>.\<close> (no \<open>s\<close> flag): anything but a line terminator.\<close>

definition is_dot :: "code_unit \<Rightarrow> bool" where
  "is_dot c = (\<not> is_line_terminator c)"

text \<open>The class \<open>[a-zA-Z0-9_-]\<close>.\<close>

definition is_file_id_char :: "code_unit \<Rightarrow> bool" where
  "is_file_id_char c =
     ((0x61 \<le> c \<and> c \<le> 0x7A) \<or> (0x41 \<le> c \<and> c \<le> 0x5A) \<or> (0x30 \<le> c \<and> c \<le> 0x39) \<or>
      c = 0x5F \<or> c = 0x2D)"

text \<open>
  \<open>Canonicalize\<close> of a regular expression with the \<open>i\<close> flag and without the \<open>u\<close>
  flag maps a code unit to its upper case, except that a code unit from 128 on is never
  mapped below 128. Every pattern character of the two \<open>/i\<close> expressions of the source is
  ASCII, so only the ASCII part of the mapping can make a comparison succeed, and this is
  the part written out here.
\<close>

definition canonicalize :: "code_unit \<Rightarrow> code_unit" where
  "canonicalize c = (if 0x61 \<le> c \<and> c \<le> 0x7A then c - 0x20 else c)"

definition char_eq :: "bool \<Rightarrow> code_unit \<Rightarrow> code_unit \<Rightarrow> bool" where
  "char_eq ignoreCase p c = (if ignoreCase then canonicalize p = canonicalize c else p = c)"

text \<open>\<open>String.prototype.trim\<close>.\<close>

definition trim :: "jsstring \<Rightarrow> jsstring" where
  "trim s = rev (dropWhile is_space (rev (dropWhile is_space s)))"

text \<open>
  \<open>parseInt(s, 10)\<close>: leading white space is skipped, one sign is read, then the longest
  run of decimal digits; no digit at all gives \<open>NaN\<close>, which is \<open>None\<close> here. The result
  is the exact integer: a JavaScript number rounds above \<open>2^53\<close> and becomes \<open>Infinity\<close>
  beyond the double range, which changes no comparison with 0 or 10.
\<close>

definition decimal :: "jsstring \<Rightarrow> nat" where
  "decimal ds = foldl (\<lambda>a c. 10 * a + unat (c - 0x30)) 0 ds"

definition parseInt :: "jsstring \<Rightarrow> int option" where
  "parseInt s =
     (let t = dropWhile is_space s;
          neg = (case t of [] \<Rightarrow> False | c # _ \<Rightarrow> c = 0x2D);
          u = (case t of [] \<Rightarrow> [] | c # cs \<Rightarrow> if c = 0x2D \<or> c = 0x2B then cs else t);
          ds = takeWhile is_digit u
      in if ds = [] then None
         else Some (if neg then - int (decimal ds) else int (decimal ds)))"

text \<open>Number to string, for the counters and indices that the source interpolates.\<close>

fun show_nat :: "nat \<Rightarrow> jsstring" where
  "show_nat n =
     (if n < 10 then [0x30 + of_nat n]
      else show_nat (n div 10) @ [0x30 + of_nat (n mod 10)])"

declare show_nat.simps [simp del]

section \<open>Regular expressions\<close>

text \<open>
  The fragment of ECMAScript regular expressions that the source uses: literals, classes,
  concatenation, alternation, the greedy quantifiers \<open>?\<close>, \<open>*\<close> and \<open>+\<close> (the last two on
  classes only, as in the source) and one capturing group. The matcher is the
  backtracking matcher of the language specification in continuation-passing style: a
  continuation receives the rest of the input and the capture, and \<open>None\<close> is failure.
\<close>

datatype regex =
    Lit jsstring
  | Class "code_unit \<Rightarrow> bool"
  | Cat regex regex
  | Alt regex regex
  | Opt regex
  | Star "code_unit \<Rightarrow> bool"
  | Plus "code_unit \<Rightarrow> bool"
  | Group regex

type_synonym capture = "jsstring option"
type_synonym continuation = "jsstring \<Rightarrow> capture \<Rightarrow> capture option"

fun lit_match :: "bool \<Rightarrow> jsstring \<Rightarrow> jsstring \<Rightarrow> jsstring option" where
  "lit_match ic [] s = Some s"
| "lit_match ic (p # ps) [] = None"
| "lit_match ic (p # ps) (c # cs) = (if char_eq ic p c then lit_match ic ps cs else None)"

fun star_match :: "(code_unit \<Rightarrow> bool) \<Rightarrow> (jsstring \<Rightarrow> capture option) \<Rightarrow> jsstring \<Rightarrow> capture option" where
  "star_match p k [] = k []"
| "star_match p k (c # cs) =
     (if p c then (case star_match p k cs of Some r \<Rightarrow> Some r | None \<Rightarrow> k (c # cs))
      else k (c # cs))"

fun rmatch :: "bool \<Rightarrow> regex \<Rightarrow> continuation \<Rightarrow> jsstring \<Rightarrow> capture \<Rightarrow> capture option" where
  "rmatch ic (Lit l) k s g = (case lit_match ic l s of None \<Rightarrow> None | Some s' \<Rightarrow> k s' g)"
| "rmatch ic (Class p) k s g = (case s of [] \<Rightarrow> None | c # cs \<Rightarrow> if p c then k cs g else None)"
| "rmatch ic (Cat a b) k s g = rmatch ic a (\<lambda>s' g'. rmatch ic b k s' g') s g"
| "rmatch ic (Alt a b) k s g =
     (case rmatch ic a k s g of Some r \<Rightarrow> Some r | None \<Rightarrow> rmatch ic b k s g)"
| "rmatch ic (Opt a) k s g = (case rmatch ic a k s g of Some r \<Rightarrow> Some r | None \<Rightarrow> k s g)"
| "rmatch ic (Star p) k s g = star_match p (\<lambda>s'. k s' g) s"
| "rmatch ic (Plus p) k s g =
     (case s of [] \<Rightarrow> None | c # cs \<Rightarrow> if p c then star_match p (\<lambda>s'. k s' g) cs else None)"
| "rmatch ic (Group a) k s g =
     rmatch ic a (\<lambda>s' g'. k s' (Some (take (length s - length s') s))) s g"

text \<open>
  \<open>String.prototype.match\<close> with a non-global expression: the first start position, from
  the left, at which the expression matches, the end of the string included. The result
  is \<open>None\<close> for \<open>null\<close> and otherwise the capture of group 1 (\<open>None\<close> for \<open>undefined\<close>).
\<close>

fun regex_exec :: "bool \<Rightarrow> regex \<Rightarrow> jsstring \<Rightarrow> capture option" where
  "regex_exec ic r [] = rmatch ic r (\<lambda>s' g. Some g) [] None"
| "regex_exec ic r (c # cs) =
     (case rmatch ic r (\<lambda>s' g. Some g) (c # cs) None of
        Some g \<Rightarrow> Some g
      | None \<Rightarrow> regex_exec ic r cs)"

text \<open>
  \<^verbatim>\<open>/(?:https?:\/\/(?:www\.)?drive\.google\.com\/(?:file\/d\/|open\?id=))([a-zA-Z0-9_-]+)/\<close>
\<close>

definition googleDriveRegex :: regex where
  "googleDriveRegex =
     Cat (Lit (js ''http'')) (Cat (Opt (Lit (js ''s''))) (Cat (Lit (js ''://''))
       (Cat (Opt (Lit (js ''www.''))) (Cat (Lit (js ''drive.google.com/''))
         (Cat (Alt (Lit (js ''file/d/'')) (Lit (js ''open?id='')))
           (Group (Plus is_file_id_char)))))))"

text \<open>\<^verbatim>\<open>/(?:Numeric )?Rating:\s*\*?(\d+)(?:\/\d+)?/i\<close>\<close>

definition ratingRegex :: regex where
  "ratingRegex =
     Cat (Opt (Lit (js ''Numeric ''))) (Cat (Lit (js ''Rating:'')) (Cat (Star is_space)
       (Cat (Opt (Lit (js ''*''))) (Cat (Group (Plus is_digit))
         (Opt (Cat (Lit (js ''/'')) (Plus is_digit)))))))"

text \<open>\<^verbatim>\<open>/(?:Summarized Report|Summary):\s*(.*)/i\<close>\<close>

definition summaryRegex :: regex where
  "summaryRegex =
     Cat (Alt (Lit (js ''Summarized Report'')) (Lit (js ''Summary''))) (Cat (Lit (js '':''))
       (Cat (Star is_space) (Group (Star is_dot))))"

section \<open>Values, rows and the environment\<close>

text \<open>
  The values that a field of a submitted row, or the job description, can hold (the
  payload arrives as JSON), with JavaScript's truthiness. Of an object or array the model
  keeps the two things that the code observes: how the test \<open>.length > 8000\<close> on it
  turns out (false, true, or an exception while the length is converted to a number), and
  whether it can be converted to a string (an object whose own \<open>toString\<close> is not
  callable cannot). No such value has a method \<open>match\<close> or \<open>substring\<close>: a property
  that arrived as JSON is not a function.
\<close>

datatype length_test = NotLong | Long | LengthRaises

datatype jsval =
    JUndefined
  | JNull
  | JBool bool
  | JNum real
  | JStr jsstring
  | JObject length_test bool

fun truthy :: "jsval \<Rightarrow> bool" where
  "truthy JUndefined = False"
| "truthy JNull = False"
| "truthy (JBool b) = b"
| "truthy (JNum x) = (x \<noteq> 0)"
| "truthy (JStr s) = (s \<noteq> [])"
| "truthy (JObject len printable) = True"

text \<open>Whether \<open>ToString\<close>, as a template literal applies it, returns.\<close>

fun convertible :: "jsval \<Rightarrow> bool" where
  "convertible (JObject len printable) = printable"
| "convertible v = True"

fun is_string :: "jsval \<Rightarrow> bool" where
  "is_string (JStr s) = True"
| "is_string v = False"

text \<open>An object is a finite map from property names; reading a missing property gives \<open>undefined\<close>.\<close>

type_synonym jsobject = "jsstring \<Rightarrow> jsval option"

definition get_prop :: "jsobject \<Rightarrow> jsstring \<Rightarrow> jsval" where
  "get_prop obj k = (case obj k of None \<Rightarrow> JUndefined | Some v \<Rightarrow> v)"

text \<open>
  The exceptions that the modelled code can raise outside a \<open>try\<close> block of its own, all
  of them \<open>TypeError\<close>s: calling \<open>.match\<close> or \<open>.substring\<close> on a value that has no
  such method, reading \<open>.length\<close> of \<open>null\<close> or \<open>undefined\<close>, and converting to a
  string or a number an object that cannot be converted.
\<close>

datatype js_error = NotAFunction | PropertyOfNullish | NotConvertible

text \<open>
  The outside world. Each oracle takes the index of the row on whose behalf it is called,
  so that repeated calls may answer differently. \<open>fetch\<close> either rejects or gives a
  response with its \<open>ok\<close> flag and the outcome of \<open>arrayBuffer()\<close>; \<open>pdfParse\<close> either
  rejects or gives \<open>data.text\<close>; the language model is \<open>null\<close> or a client whose
  \<open>generateContent\<close> either rejects or gives \<open>response.text()\<close>.
\<close>

type_synonym bytes = "8 word list"

datatype fetch_outcome = FetchRejected | FetchResponse bool "bytes option"
datatype pdf_outcome = PdfRejected | PdfData jsstring
datatype llm_outcome = LlmRejected | LlmText jsstring

text \<open>
  The prompt, as the two interpolated parts of the template: the resume text and the job
  description, the latter as the value that is interpolated.
\<close>

datatype prompt = Prompt jsstring jsval

type_synonym gemini_model = "nat \<Rightarrow> prompt \<Rightarrow> llm_outcome"

record env =
  fetch :: "nat \<Rightarrow> jsstring \<Rightarrow> fetch_outcome"
  pdfParse :: "nat \<Rightarrow> bytes \<Rightarrow> pdf_outcome"
  model :: "gemini_model option"

text \<open>
  What a job does to the outside: the events it emits on the socket and the calls it makes.
  Console output is not recorded. The report line of a \<open>processingUpdate\<close> is kept as its
  template and arguments.
\<close>

datatype progress =
    Received
  | ProcessingResume nat nat jsval
  | ExtractingPdf jsval
  | NoPdfUrl jsval
  | Analyzing jsval
  | AllProcessed

datatype event =
    ProcessingUpdate "jsstring option" progress
  | ProcessingComplete "jsobject list" jsstring
  | ProcessingError jsstring js_error

datatype effect =
    Emit event
  | FetchCall nat jsstring
  | GenerateCall nat prompt

record score =
  rating :: int
  summary :: jsstring

section \<open>Startup\<close>

text \<open>
  Lines 20 to 31: without the key the process exits with status 1; otherwise the client is
  built. \<open>geminiApiKey\<close> is \<open>None\<close> for an unset variable.
\<close>

datatype process = Exited nat | Running "gemini_model option"

definition startup :: "jsstring option \<Rightarrow> gemini_model \<Rightarrow> process" where
  "startup geminiApiKey client =
     (if geminiApiKey = None \<or> geminiApiKey = Some [] then Exited 1
      else Running (if geminiApiKey = None \<or> geminiApiKey = Some [] then None else Some client))"

section \<open>extractPdfData\<close>

definition direct_download :: jsstring where
  "direct_download = js ''https://drive.google.com/uc?export=download&id=''"

text \<open>Lines 43 to 59: the link that is fetched.\<close>

definition effectiveResumeLink :: "jsstring \<Rightarrow> jsstring" where
  "effectiveResumeLink resume_link =
     (case regex_exec False googleDriveRegex resume_link of
        Some (Some fileId) \<Rightarrow> if fileId \<noteq> [] then direct_download @ fileId else resume_link
      | _ \<Rightarrow> resume_link)"

text \<open>
  The result is the \<open>text\<close> field of the returned object, \<open>None\<close> for \<open>null\<close>. The
  template literal of line 40 converts the link to a string before line 47 calls
  \<open>.match\<close> on it; both stand before the first \<open>try\<close>.
\<close>

definition extractPdfData :: "env \<Rightarrow> nat \<Rightarrow> jsval \<Rightarrow> effect list \<times> (js_error + jsstring option)" where
  "extractPdfData e i resume_link =
     (if \<not> truthy resume_link then ([], Inr None)
      else if \<not> convertible resume_link then ([], Inl NotConvertible)
      else case resume_link of
        JStr l \<Rightarrow>
          (let url = effectiveResumeLink l in
           case fetch e i url of
             FetchRejected \<Rightarrow> ([FetchCall i url], Inr None)
           | FetchResponse ok body \<Rightarrow>
               if \<not> ok then ([FetchCall i url], Inr None)
               else case body of
                 None \<Rightarrow> ([FetchCall i url], Inr None)
               | Some pdfBuffer \<Rightarrow>
                   (case pdfParse e i pdfBuffer of
                      PdfRejected \<Rightarrow> ([FetchCall i url], Inr None)
                    | PdfData extractedText \<Rightarrow>
                        if extractedText \<noteq> [] \<and> length (trim extractedText) > 0
                        then ([FetchCall i url], Inr (Some extractedText))
                        else ([FetchCall i url], Inr None)))
      | _ \<Rightarrow> ([], Inl NotAFunction))"

section \<open>compareWithLLM\<close>

definition truncate8000 :: "jsstring \<Rightarrow> jsstring" where
  "truncate8000 s =
     (if length s > 8000 then take 8000 s @ ([0x0A] @ js ''... (truncated)'') else s)"

text \<open>
  Lines 115 to 138, outside the \<open>try\<close>. \<open>jobDescription.length\<close> raises on \<open>null\<close> and
  \<open>undefined\<close>. A string is cut to 8000 code units. A boolean or a number has no length
  and is interpolated whole. For an object or array, the test on its length may raise;
  when the test is true, \<open>jobDescription.substring\<close> is not a function; otherwise the
  value is interpolated, which converts it to a string.
\<close>

definition build_prompt :: "jsstring \<Rightarrow> jsval \<Rightarrow> js_error + prompt" where
  "build_prompt text jobDescription =
     (case jobDescription of
        JUndefined \<Rightarrow> Inl PropertyOfNullish
      | JNull \<Rightarrow> Inl PropertyOfNullish
      | JStr d \<Rightarrow> Inr (Prompt (truncate8000 text) (JStr (truncate8000 d)))
      | JObject len printable \<Rightarrow>
          (case len of
             LengthRaises \<Rightarrow> Inl NotConvertible
           | Long \<Rightarrow> Inl NotAFunction
           | NotLong \<Rightarrow>
               if printable then Inr (Prompt (truncate8000 text) jobDescription)
               else Inl NotConvertible)
      | v \<Rightarrow> Inr (Prompt (truncate8000 text) v))"

definition not_configured :: score where
  "not_configured = \<lparr>rating = 0, summary = js ''LLM not configured.''\<rparr>"

definition missing_content :: score where
  "missing_content = \<lparr>rating = 0, summary = js ''Missing resume content for LLM analysis.''\<rparr>"

definition api_error :: score where
  "api_error = \<lparr>rating = 0, summary = js ''Failed to get LLM report due to API error.''\<rparr>"

definition no_summary :: jsstring where
  "no_summary = js ''Could not parse summary from LLM response.''"

text \<open>Lines 149 to 169: the rating read from the response text.\<close>

definition parse_rating :: "jsstring \<Rightarrow> int" where
  "parse_rating text =
     (case regex_exec True ratingRegex text of
        Some (Some digits) \<Rightarrow>
          if digits \<noteq> [] then
            (case parseInt digits of
               None \<Rightarrow> 0
             | Some r \<Rightarrow> if r < 0 \<or> r > 10 then 0 else r)
          else 0
      | _ \<Rightarrow> 0)"

text \<open>
  Lines 171 to 173. \<open>summaryMatch[1].trim()\<close> raises when the group is \<open>undefined\<close>; the
  surrounding \<open>try\<close> catches it.
\<close>

definition parse_summary :: "jsstring \<Rightarrow> js_error + jsstring" where
  "parse_summary text =
     (case regex_exec True summaryRegex text of
        None \<Rightarrow> Inr no_summary
      | Some None \<Rightarrow> Inl PropertyOfNullish
      | Some (Some rest) \<Rightarrow> Inr (trim rest))"

text \<open>Lines 146 to 182: from the response text to the returned object.\<close>

definition score_of_response :: "jsstring \<Rightarrow> score" where
  "score_of_response text =
     (case parse_summary text of
        Inl err \<Rightarrow> api_error
      | Inr s \<Rightarrow> \<lparr>rating = parse_rating text, summary = s\<rparr>)"

definition compareWithLLM ::
  "env \<Rightarrow> nat \<Rightarrow> jsstring option \<Rightarrow> jsval \<Rightarrow> effect list \<times> (js_error + score)" where
  "compareWithLLM e i resumeContent jobDescription =
     (case model e of
        None \<Rightarrow> ([], Inr not_configured)
      | Some generateContent \<Rightarrow>
          (case resumeContent of
             None \<Rightarrow> ([], Inr missing_content)
           | Some text \<Rightarrow>
               if text = [] then ([], Inr missing_content)
               else case build_prompt text jobDescription of
                 Inl err \<Rightarrow> ([], Inl err)
               | Inr p \<Rightarrow>
                   (case generateContent i p of
                      LlmRejected \<Rightarrow> ([GenerateCall i p], Inr api_error)
                    | LlmText response \<Rightarrow> ([GenerateCall i p], Inr (score_of_response response)))))"

section \<open>The startProcessing handler\<close>

definition display_email :: "jsobject \<Rightarrow> nat \<Rightarrow> jsval" where
  "display_email row i =
     (if truthy (get_prop row (js ''email'')) then get_prop row (js ''email'')
      else JStr (js ''NoEmail_'' @ show_nat i))"

text \<open>Lines 234 to 254: the acquisition phase of one row.\<close>

definition acquire :: "env \<Rightarrow> nat \<Rightarrow> jsobject \<Rightarrow> effect list \<times> (js_error + jsstring option)" where
  "acquire e i row =
     (let email = display_email row i; resume_link = get_prop row (js ''resume_link'') in
      if truthy resume_link then
        (case extractPdfData e i resume_link of
           (tr, r) \<Rightarrow> (Emit (ProcessingUpdate None (ExtractingPdf email)) # tr, r))
      else ([Emit (ProcessingUpdate None (NoPdfUrl email))], Inr None))"

text \<open>\<open>extractedContent.text\<close> as a condition.\<close>

definition has_text :: "jsstring option \<Rightarrow> bool" where
  "has_text content = (case content of None \<Rightarrow> False | Some t \<Rightarrow> t \<noteq> [])"

definition skipped_summary :: jsstring where
  "skipped_summary = js ''LLM analysis skipped due to no extracted PDF text.''"

text \<open>Lines 279 to 286: the row with the three result fields written over it.\<close>

definition processedRow :: "jsobject \<Rightarrow> bool \<Rightarrow> int \<Rightarrow> jsstring \<Rightarrow> jsobject" where
  "processedRow row extracted llmRating llmSummary =
     row (js ''pdfExtractionStatus'' \<mapsto> JStr (if extracted then js ''Success'' else js ''Failed''),
          js ''Rating'' \<mapsto> JNum (of_int llmRating),
          js ''Summary'' \<mapsto> JStr llmSummary)"

text \<open>
  One turn of the loop, lines 224 to 291. The result is the processed row and whether each
  of the two counters is incremented. The template literal of line 229 converts the
  email to a string before anything is emitted for the row; the later literals convert
  the same value again.
\<close>

definition process_row ::
  "env \<Rightarrow> jsval \<Rightarrow> nat \<Rightarrow> nat \<Rightarrow> jsobject \<Rightarrow> effect list \<times> (js_error + jsobject \<times> bool \<times> bool)" where
  "process_row e txtData n i row =
     (let email = display_email row i;
          start = Emit (ProcessingUpdate None (ProcessingResume (i + 1) n email)) in
      if \<not> convertible email then ([], Inl NotConvertible)
      else case acquire e i row of
        (tr1, Inl err) \<Rightarrow> (start # tr1, Inl err)
      | (tr1, Inr extractedContent) \<Rightarrow>
          if has_text extractedContent then
            (case compareWithLLM e i extractedContent txtData of
               (tr2, Inl err) \<Rightarrow>
                 (start # tr1 @ Emit (ProcessingUpdate None (Analyzing email)) # tr2, Inl err)
             | (tr2, Inr llmReport) \<Rightarrow>
                 (start # tr1 @ Emit (ProcessingUpdate None (Analyzing email)) # tr2,
                  Inr (processedRow row True (rating llmReport) (summary llmReport), True,
                       rating llmReport > 0 \<or> summary llmReport \<noteq> js ''LLM not configured.'')))
          else
            (start # tr1, Inr (processedRow row False 0 skipped_summary, False, False)))"

record job_state =
  processedResumes :: "jsobject list"
  successfulExtractions :: nat
  successfulLLMCalls :: nat

definition initial_state :: job_state where
  "initial_state = \<lparr>processedResumes = [], successfulExtractions = 0, successfulLLMCalls = 0\<rparr>"

text \<open>
  The loop of line 223 over the rows that remain, \<open>i\<close> being the index of the first.
  Every entry of \<open>csvData\<close> is an object, as the rows of a parsed CSV file are.
\<close>

fun process_rows ::
  "env \<Rightarrow> jsval \<Rightarrow> nat \<Rightarrow> nat \<Rightarrow> jsobject list \<Rightarrow> job_state \<Rightarrow> effect list \<times> (js_error + job_state)" where
  "process_rows e txtData n i [] st = ([], Inr st)"
| "process_rows e txtData n i (row # rows) st =
     (case process_row e txtData n i row of
        (tr, Inl err) \<Rightarrow> (tr, Inl err)
      | (tr, Inr (r, extracted, counted)) \<Rightarrow>
          (case process_rows e txtData n (i + 1) rows
                  \<lparr>processedResumes = processedResumes st @ [r],
                   successfulExtractions = successfulExtractions st + (if extracted then 1 else 0),
                   successfulLLMCalls = successfulLLMCalls st + (if counted then 1 else 0)\<rparr> of
             (tr', res) \<Rightarrow> (tr @ tr', res)))"

definition run_job :: "env \<Rightarrow> jsobject list \<Rightarrow> jsval \<Rightarrow> effect list \<times> (js_error + job_state)" where
  "run_job e csvData txtData = process_rows e txtData (length csvData) 0 csvData initial_state"

definition closing_report :: "job_state \<Rightarrow> jsstring" where
  "closing_report st =
     js ''Successfully extracted text from '' @ show_nat (successfulExtractions st) @
     js '' PDFs and ran '' @ show_nat (successfulLLMCalls st) @ js '' LLM analyses.''"

definition generic_message :: jsstring where
  "generic_message = js ''An error occurred during backend processing. Check server logs.''"

text \<open>Lines 210 to 317: everything the handler does for one \<open>startProcessing\<close> message.\<close>

definition startProcessing :: "env \<Rightarrow> jsobject list \<Rightarrow> jsval \<Rightarrow> effect list" where
  "startProcessing e csvData txtData =
     Emit (ProcessingUpdate (Some (js ''analysing all resume'')) Received) #
     (case run_job e csvData txtData of
        (tr, Inr st) \<Rightarrow>
          tr @ [Emit (ProcessingUpdate (Some (js ''converting to csv'')) AllProcessed),
                Emit (ProcessingComplete (processedResumes st) (closing_report st))]
      | (tr, Inl err) \<Rightarrow> tr @ [Emit (ProcessingError generic_message err)])"

section \<open>The process\<close>

text \<open>
  Startup, then one run of the handler for each \<open>startProcessing\<close> message, each with
  the outcomes of its own network calls. Jobs share nothing but the model, which is read
  only, so they are taken one after the other. A process that exits handles no message.
\<close>

datatype run = Exit nat | Served "effect list list"

type_synonym message =
  "(nat \<Rightarrow> jsstring \<Rightarrow> fetch_outcome) \<times> (nat \<Rightarrow> bytes \<Rightarrow> pdf_outcome) \<times> jsobject list \<times> jsval"

definition server :: "jsstring option \<Rightarrow> gemini_model \<Rightarrow> message list \<Rightarrow> run" where
  "server geminiApiKey client messages =
     (case startup geminiApiKey client of
        Exited status \<Rightarrow> Exit status
      | Running m \<Rightarrow>
          Served (map (\<lambda>(f, p, csvData, txtData).
                         startProcessing \<lparr>fetch = f, pdfParse = p, model = m\<rparr> csvData txtData)
                    messages))"


section \<open>Well-formed input\<close>

text \<open>
  A row as a client that follows the protocol sends it: an email that can be printed,
  and a link that is absent, empty (falsy) or a string. A job description that can be
  interpolated into the prompt: a string in particular, a boolean or a number, or an
  object that passes the length test and can be printed.
\<close>

definition well_formed_row :: "jsobject \<Rightarrow> bool" where
  "well_formed_row row =
     (convertible (get_prop row (js ''email'')) \<and>
      (if truthy (get_prop row (js ''resume_link''))
       then is_string (get_prop row (js ''resume_link'')) else True))"

fun description_ok :: "jsval \<Rightarrow> bool" where
  "description_ok JUndefined = False"
| "description_ok JNull = False"
| "description_ok (JObject len printable) = (len = NotLong \<and> printable)"
| "description_ok v = True"

section \<open>Observations on a job\<close>

text \<open>
  Parts of \<open>process_row\<close> under names of their own, for the statements about a finished
  job: lemma \<open>process_row_Inr\<close> shows that a turn of the loop that completes computes them.
\<close>

text \<open>
  The object that \<open>compareWithLLM\<close> returns for a row, lines 258 to 267, when the row is
  scored and nothing is raised; \<open>None\<close> otherwise.
\<close>

definition llmReport :: "env \<Rightarrow> jsval \<Rightarrow> nat \<Rightarrow> jsobject \<Rightarrow> score option" where
  "llmReport e txtData i row =
     (case acquire e i row of
        (tr1, Inl err) \<Rightarrow> None
      | (tr1, Inr extractedContent) \<Rightarrow>
          if has_text extractedContent then
            (case compareWithLLM e i extractedContent txtData of
               (tr2, Inl err) \<Rightarrow> None
             | (tr2, Inr report) \<Rightarrow> Some report)
          else None)"

text \<open>The row that is pushed onto \<open>processedResumes\<close> when the turn of the loop completes.\<close>

definition row_result :: "env \<Rightarrow> jsval \<Rightarrow> nat \<Rightarrow> jsobject \<Rightarrow> jsobject" where
  "row_result e txtData i row =
     (case llmReport e txtData i row of
        None \<Rightarrow> processedRow row False 0 skipped_summary
      | Some report \<Rightarrow> processedRow row True (rating report) (summary report))"

text \<open>The condition of lines 268 to 271 under which \<open>successfulLLMCalls\<close> is incremented.\<close>

definition counted_row :: "env \<Rightarrow> jsval \<Rightarrow> nat \<Rightarrow> jsobject \<Rightarrow> bool" where
  "counted_row e txtData i row =
     (case llmReport e txtData i row of None \<Rightarrow> False | Some report \<Rightarrow> report \<noteq> not_configured)"

text \<open>
  The two events that end a job, the index of the row on whose behalf a network call is
  made, and the calls to the scoring backend.
\<close>

fun is_terminal :: "effect \<Rightarrow> bool" where
  "is_terminal (Emit (ProcessingComplete rows report)) = True"
| "is_terminal (Emit (ProcessingError message err)) = True"
| "is_terminal eff = False"

fun call_index :: "effect \<Rightarrow> nat option" where
  "call_index (FetchCall i url) = Some i"
| "call_index (GenerateCall i p) = Some i"
| "call_index (Emit ev) = None"

fun is_generate_call :: "effect \<Rightarrow> bool" where
  "is_generate_call (GenerateCall i p) = True"
| "is_generate_call eff = False"

section \<open>What the two response patterns recognise\<close>

text \<open>
  The patterns described in words, without the matcher. The definitions of this section
  are not translated from the source: they say what a pattern is meant to find, and the
  lemmas on the rating and the summary pattern prove that the matcher, run on the
  expressions of the source, computes them. \<open>first_suffix\<close> is the leftmost position of
  a text at which a reader succeeds.
\<close>

fun first_suffix :: "(jsstring \<Rightarrow> 'a option) \<Rightarrow> jsstring \<Rightarrow> 'a option" where
  "first_suffix f [] = f []"
| "first_suffix f (c # cs) = (case f (c # cs) of Some r \<Rightarrow> Some r | None \<Rightarrow> first_suffix f cs)"

fun somewhere :: "(jsstring \<Rightarrow> bool) \<Rightarrow> jsstring \<Rightarrow> bool" where
  "somewhere P [] = P []"
| "somewhere P (c # cs) = (P (c # cs) \<or> somewhere P cs)"

text \<open>
  The rating: the label \<open>Rating:\<close> in any letter case, white space, at most one
  asterisk (\<open>skip_star\<close>), then a run of digits, which is the result. The label may be
  preceded by \<open>Numeric\<close> and a space. \<open>digits_run\<close> is the run of digits as a capture.
\<close>

definition skip_star :: "jsstring \<Rightarrow> jsstring" where
  "skip_star t = (case t of [] \<Rightarrow> [] | c # cs \<Rightarrow> if c = 0x2A then cs else t)"

definition digits_run :: "jsstring \<Rightarrow> capture option" where
  "digits_run t = (if takeWhile is_digit t = [] then None else Some (Some (takeWhile is_digit t)))"

definition rating_at :: "jsstring \<Rightarrow> jsstring option" where
  "rating_at s =
     (case lit_match True (js ''Rating:'') s of
        None \<Rightarrow> None
      | Some r \<Rightarrow>
          (let ds = takeWhile is_digit (skip_star (dropWhile is_space r))
           in if ds = [] then None else Some ds))"

definition rating_match_at :: "jsstring \<Rightarrow> jsstring option" where
  "rating_match_at s =
     (case lit_match True (js ''Numeric '') s of
        None \<Rightarrow> rating_at s
      | Some s1 \<Rightarrow> (case rating_at s1 of Some ds \<Rightarrow> Some ds | None \<Rightarrow> rating_at s))"

text \<open>
  The summary: after the label \<open>Summarized Report:\<close> or \<open>Summary:\<close> in any letter case,
  white space is skipped and the rest of the line is the result.
\<close>

definition summary_label_at :: "jsstring \<Rightarrow> jsstring option" where
  "summary_label_at s =
     (case lit_match True (js ''Summarized Report:'') s of
        Some r \<Rightarrow> Some r
      | None \<Rightarrow> lit_match True (js ''Summary:'') s)"

definition rest_of_line :: "jsstring \<Rightarrow> jsstring" where
  "rest_of_line r = takeWhile is_dot (dropWhile is_space r)"

definition has_rating_label :: "jsstring \<Rightarrow> bool" where
  "has_rating_label text = somewhere (\<lambda>s. lit_match True (js ''Rating:'') s \<noteq> None) text"

definition has_summary_label :: "jsstring \<Rightarrow> bool" where
  "has_summary_label text = (first_suffix summary_label_at text \<noteq> None)"

text \<open>
  The shape of a rated response when only a label and an integer are spoken of, read
  generously: somewhere the label \<open>Rating:\<close>, in any letter case, then white space if any,
  then an integer. (A preceding \<open>Numeric\<close> and a following \<open>/10\<close> are optional and so do
  not restrict the shape.)
\<close>

definition claimed_rating_shape :: "jsstring \<Rightarrow> bool" where
  "claimed_rating_shape text =
     somewhere (\<lambda>s. case lit_match True (js ''Rating:'') s of
                       None \<Rightarrow> False
                     | Some r \<Rightarrow> takeWhile is_digit (dropWhile is_space r) \<noteq> []) text"

section \<open>Example jobs\<close>

text \<open>
  Four rows: a shared cloud-drive link whose document is fetched and scored 8; a link whose
  fetch is rejected; an empty link; a link whose document is fetched but whose scoring call
  is rejected.
\<close>

definition example_client :: gemini_model where
  "example_client =
     (\<lambda>i p. if i = 0 then LlmText (js ''Rating:8/10 Summary:Strong match'') else LlmRejected)"

definition example_env :: env where
  "example_env =
     \<lparr>fetch = (\<lambda>i url. if i = 1 then FetchRejected else FetchResponse True (Some [0x25, 0x50])),
      pdfParse = (\<lambda>i buf. PdfData (js ''Python developer'')),
      model = Some example_client\<rparr>"

definition example_rows :: "jsobject list" where
  "example_rows =
     [[js ''email'' \<mapsto> JStr (js ''a@b.c''),
       js ''resume_link'' \<mapsto> JStr (js ''https://drive.google.com/file/d/1AbC-_x/view'')],
      [js ''resume_link'' \<mapsto> JStr (js ''http://x.y/cv.pdf'')],
      [js ''email'' \<mapsto> JStr (js ''c@d.e''), js ''resume_link'' \<mapsto> JStr []],
      [js ''resume_link'' \<mapsto> JStr (js ''http://x.y/cv2.pdf'')]]"

definition example_job_description :: jsval where
  "example_job_description = JStr (js ''Backend engineer'')"


definition bad_rows :: "jsobject list" where
  "bad_rows = [[js ''resume_link'' \<mapsto> JNum 5]]"

section \<open>The matcher\<close>

lemma regex_exec_first_suffix:
  "regex_exec ic r s = first_suffix (\<lambda>t. rmatch ic r (\<lambda>s' g. Some g) t None) s"
  by (induction s) (auto split: option.splits)

lemma star_match_const: "star_match p (\<lambda>s'. Some r) s = Some r"
  by (induction s) auto

lemma star_match_greedy:
  "k (dropWhile p s) \<noteq> None \<Longrightarrow> star_match p k s = k (dropWhile p s)"
  by (induction s) (auto split: option.splits)

lemma star_match_blocked:
  "(\<And>c cs. p c \<Longrightarrow> k (c # cs) = None) \<Longrightarrow> star_match p k s = k (dropWhile p s)"
  by (induction s) (auto split: option.splits)

lemma take_length_dropWhile:
  "take (length s - length (dropWhile p s)) s = takeWhile p s"
proof -
  have "length s = length (takeWhile p s) + length (dropWhile p s)"
    by (metis length_append takeWhile_dropWhile_id)
  then have "length s - length (dropWhile p s) = length (takeWhile p s)" by simp
  then show ?thesis by (metis takeWhile_eq_take)
qed

lemma rating_tail:
  "rmatch ic (Opt (Cat (Lit l) (Plus p))) (\<lambda>s' g. Some g) s g = Some g"
  by (auto simp: star_match_const split: option.splits list.splits)

lemma group_plus:
  "rmatch ic (Group (Plus p)) (\<lambda>s' g. Some g) s g =
     (if takeWhile p s = [] then None else Some (Some (takeWhile p s)))"
proof (cases s)
  case Nil
  then show ?thesis by simp
next
  case (Cons c cs)
  show ?thesis
  proof (cases "p c")
    case False
    with Cons show ?thesis by simp
  next
    case True
    have "star_match p (\<lambda>s'. Some (Some (take (length (c # cs) - length s') (c # cs)))) cs
        = Some (Some (take (length (c # cs) - length (dropWhile p cs)) (c # cs)))"
      by (rule star_match_greedy) simp
    moreover have "take (length (c # cs) - length (dropWhile p (c # cs))) (c # cs) = takeWhile p (c # cs)"
      by (rule take_length_dropWhile)
    ultimately show ?thesis using True Cons by simp
  qed
qed

section \<open>The rating pattern\<close>

lemma canonicalize_star: "canonicalize c = 0x2A \<longleftrightarrow> c = 0x2A"
  unfolding canonicalize_def by (auto; unat_arith)

lemma char_eq_star: "char_eq True 0x2A c \<longleftrightarrow> c = 0x2A"
  using canonicalize_star[of c] by (auto simp: char_eq_def canonicalize_def)

lemma space_not_digit: "is_space c \<Longrightarrow> \<not> is_digit c"
  unfolding is_space_def is_digit_def is_line_terminator_def by (auto; unat_arith)

lemma space_not_star: "is_space c \<Longrightarrow> c \<noteq> 0x2A"
  by (auto simp: is_space_def is_digit_def is_line_terminator_def)

lemma star_not_digit: "\<not> is_digit 0x2A"
  by (simp add: is_digit_def)

lemma js_star: "js ''*'' = [0x2A]" by (simp add: js_def)

lemma rmatch_Cat: "rmatch ic (Cat a b) k = rmatch ic a (rmatch ic b k)"
  by (intro ext) simp

lemma rating_tail_fun:
  "rmatch ic (Opt (Cat (Lit l) (Plus p))) (\<lambda>s' g. Some g) = (\<lambda>s' g. Some g)"
  by (intro ext) (rule rating_tail)

lemma digits_then_tail:
  "rmatch ic (Cat (Group (Plus is_digit)) (Opt (Cat (Lit l) (Plus q)))) (\<lambda>s' g. Some g) = (\<lambda>s g. digits_run s)"
  by (intro ext) (simp only: rmatch_Cat rating_tail_fun group_plus digits_run_def)

lemma opt_star_digits:
  "rmatch True (Cat (Opt (Lit (js ''*''))) (Cat (Group (Plus is_digit)) (Opt (Cat (Lit l) (Plus q)))))
      (\<lambda>s' g. Some g) = (\<lambda>t g. digits_run (skip_star t))"
proof (intro ext)
  fix t g
  have "rmatch True (Cat (Opt (Lit (js ''*''))) (Cat (Group (Plus is_digit)) (Opt (Cat (Lit l) (Plus q)))))
      (\<lambda>s' g. Some g) t g =
      (case (case lit_match True [0x2A] t of None \<Rightarrow> None | Some t1 \<Rightarrow> digits_run t1) of
         Some r \<Rightarrow> Some r | None \<Rightarrow> digits_run t)"
    by (simp only: rmatch_Cat[where a="Opt (Lit x)" for x] digits_then_tail js_star rmatch.simps(1,5))
  also have "\<dots> = digits_run (skip_star t)"
    by (cases t) (auto simp: skip_star_def char_eq_star digits_run_def star_not_digit split: option.splits)
  finally show "rmatch True (Cat (Opt (Lit (js ''*''))) (Cat (Group (Plus is_digit)) (Opt (Cat (Lit l) (Plus q)))))
      (\<lambda>s' g. Some g) t g = digits_run (skip_star t)" .
qed

lemma spaces_star_digits:
  "rmatch True (Cat (Star is_space) (Cat (Opt (Lit (js ''*''))) (Cat (Group (Plus is_digit)) (Opt (Cat (Lit l) (Plus q))))))
      (\<lambda>s' g. Some g) = (\<lambda>r g. digits_run (skip_star (dropWhile is_space r)))"
proof (intro ext)
  fix r g
  have "rmatch True (Cat (Star is_space) (Cat (Opt (Lit (js ''*''))) (Cat (Group (Plus is_digit)) (Opt (Cat (Lit l) (Plus q))))))
      (\<lambda>s' g. Some g) r g = star_match is_space (\<lambda>s'. digits_run (skip_star s')) r"
    by (simp only: rmatch_Cat[of _ "Star is_space"] opt_star_digits rmatch.simps(6))
  also have "\<dots> = digits_run (skip_star (dropWhile is_space r))"
    by (rule star_match_blocked) (auto simp: skip_star_def digits_run_def space_not_digit space_not_star)
  finally show "rmatch True (Cat (Star is_space) (Cat (Opt (Lit (js ''*''))) (Cat (Group (Plus is_digit)) (Opt (Cat (Lit l) (Plus q))))))
      (\<lambda>s' g. Some g) r g = digits_run (skip_star (dropWhile is_space r))" .
qed

lemma rating_at_alt:
  "rating_at s = (case lit_match True (js ''Rating:'') s of None \<Rightarrow> None
      | Some r \<Rightarrow> (if takeWhile is_digit (skip_star (dropWhile is_space r)) = [] then None
                  else Some (takeWhile is_digit (skip_star (dropWhile is_space r)))))"
  by (simp add: rating_at_def skip_star_def Let_def split: option.splits)

lemma label_then_digits:
  "rmatch True (Cat (Lit (js ''Rating:'')) (Cat (Star is_space) (Cat (Opt (Lit (js ''*''))) (Cat (Group (Plus is_digit)) (Opt (Cat (Lit l) (Plus q)))))))
      (\<lambda>s' g. Some g) = (\<lambda>s g. map_option Some (rating_at s))"
proof (intro ext)
  fix s g
  show "rmatch True (Cat (Lit (js ''Rating:'')) (Cat (Star is_space) (Cat (Opt (Lit (js ''*''))) (Cat (Group (Plus is_digit)) (Opt (Cat (Lit l) (Plus q)))))))
      (\<lambda>s' g. Some g) s g = map_option Some (rating_at s)"
    by (simp only: rmatch_Cat[of _ "Lit (js ''Rating:'')"] spaces_star_digits rmatch.simps(1) rating_at_alt digits_run_def)
       (simp split: option.splits)
qed

lemma rating_regex_at:
  "rmatch True ratingRegex (\<lambda>s' g. Some g) s None = map_option Some (rating_match_at s)"
  unfolding ratingRegex_def
  by (simp only: rmatch_Cat[of _ "Opt (Lit (js ''Numeric ''))"] label_then_digits rmatch.simps(1,5) rating_match_at_def)
     (simp split: option.splits)

lemma rating_exec:
  "regex_exec True ratingRegex text = map_option Some (first_suffix rating_match_at text)"
proof -
  have "first_suffix (\<lambda>t. map_option Some (f t)) s = map_option Some (first_suffix f s)" for f :: "jsstring \<Rightarrow> jsstring option" and s
    by (induction s) (auto split: option.splits)
  then show ?thesis by (simp add: regex_exec_first_suffix rating_regex_at)
qed

section \<open>The summary pattern\<close>

lemma lit_match_append:
  "lit_match ic (a @ b) s = (case lit_match ic a s of None \<Rightarrow> None | Some s' \<Rightarrow> lit_match ic b s')"
proof (induction a arbitrary: s)
  case Nil
  then show ?case by simp
next
  case (Cons p ps)
  then show ?case by (cases s) auto
qed

lemma group_star:
  "rmatch ic (Group (Star p)) (\<lambda>s' g. Some g) s g = Some (Some (takeWhile p s))"
proof -
  have "star_match p (\<lambda>s'. Some (Some (take (length s - length s') s))) s
        = Some (Some (take (length s - length (dropWhile p s)) s))"
    by (rule star_match_greedy) simp
  then show ?thesis by (simp add: take_length_dropWhile)
qed

lemma spaces_then_line:
  "rmatch ic (Cat (Star is_space) (Group (Star is_dot))) (\<lambda>s' g. Some g) = (\<lambda>r g. Some (Some (rest_of_line r)))"
proof (intro ext)
  fix r g
  have "rmatch ic (Cat (Star is_space) (Group (Star is_dot))) (\<lambda>s' g. Some g) r g
      = star_match is_space (\<lambda>s'. Some (Some (takeWhile is_dot s'))) r"
    by (simp only: rmatch.simps(3,6) group_star)
  also have "\<dots> = Some (Some (takeWhile is_dot (dropWhile is_space r)))"
    by (rule star_match_greedy) simp
  finally show "rmatch ic (Cat (Star is_space) (Group (Star is_dot))) (\<lambda>s' g. Some g) r g = Some (Some (rest_of_line r))"
    by (simp add: rest_of_line_def)
qed

lemma js_append: "js (a @ b) = js a @ js b"
  by (simp add: js_def)

lemma summary_regex_at:
  "rmatch True summaryRegex (\<lambda>s' g. Some g) s None = map_option (\<lambda>r. Some (rest_of_line r)) (summary_label_at s)"
proof -
  have a: "js ''Summarized Report:'' = js ''Summarized Report'' @ js '':''"
    and b: "js ''Summary:'' = js ''Summary'' @ js '':''"
    by (simp_all add: js_def)
  have "rmatch True summaryRegex (\<lambda>s' g. Some g) s None =
     (case (case lit_match True (js ''Summarized Report'') s of None \<Rightarrow> None
            | Some s1 \<Rightarrow> (case lit_match True (js '':'') s1 of None \<Rightarrow> None | Some r \<Rightarrow> Some (Some (rest_of_line r)))) of
        Some x \<Rightarrow> Some x
      | None \<Rightarrow> (case lit_match True (js ''Summary'') s of None \<Rightarrow> None
            | Some s1 \<Rightarrow> (case lit_match True (js '':'') s1 of None \<Rightarrow> None | Some r \<Rightarrow> Some (Some (rest_of_line r)))))"
    unfolding summaryRegex_def
    by (simp only: rmatch_Cat[where a="Alt x y" for x y] rmatch_Cat[where a="Lit x" for x] spaces_then_line rmatch.simps(1,4))
  also have "\<dots> = map_option (\<lambda>r. Some (rest_of_line r)) (summary_label_at s)"
    unfolding summary_label_at_def a b lit_match_append
    by (simp split: option.splits)
  finally show ?thesis .
qed

lemma first_suffix_map:
  "first_suffix (\<lambda>t. map_option h (f t)) s = map_option h (first_suffix f s)"
  by (induction s) (auto split: option.splits)

lemma summary_exec:
  "regex_exec True summaryRegex text = map_option (\<lambda>r. Some (rest_of_line r)) (first_suffix summary_label_at text)"
  by (simp add: regex_exec_first_suffix summary_regex_at first_suffix_map)

lemma parse_summary_eq:
  "parse_summary text = Inr (case first_suffix summary_label_at text of None \<Rightarrow> no_summary | Some r \<Rightarrow> trim (rest_of_line r))"
  by (simp add: parse_summary_def summary_exec split: option.splits)

section \<open>The shape of a rated response\<close>

lemma first_suffix_Some:
  "first_suffix f s = Some x \<Longrightarrow> \<exists>pre t. s = pre @ t \<and> f t = Some x"
proof (induction s)
  case Nil
  then show ?case by auto
next
  case (Cons c cs)
  show ?case
  proof (cases "f (c # cs)")
    case (Some y)
    with Cons.prems have "f (c # cs) = Some x" by simp
    then show ?thesis by (metis append_Nil)
  next
    case None
    with Cons.prems have "first_suffix f cs = Some x" by simp
    with Cons.IH obtain pre t where "cs = pre @ t" "f t = Some x" by blast
    then have "c # cs = (c # pre) @ t" by simp
    with \<open>f t = Some x\<close> show ?thesis by blast
  qed
qed

lemma lit_match_decomp:
  "lit_match ic l s = Some r \<Longrightarrow> \<exists>u. s = u @ r \<and> length u = length l \<and> list_all2 (char_eq ic) l u"
proof (induction ic l s rule: lit_match.induct)
  case (1 ic s)
  then show ?case by simp
next
  case (2 ic p ps)
  then show ?case by simp
next
  case (3 ic p ps c cs)
  then have eq: "char_eq ic p c" and m: "lit_match ic ps cs = Some r"
    by (auto split: if_splits)
  from 3 eq m obtain u where "cs = u @ r" "length u = length ps" "list_all2 (char_eq ic) ps u"
    by blast
  then have "c # cs = (c # u) @ r \<and> length (c # u) = length (p # ps) \<and> list_all2 (char_eq ic) (p # ps) (c # u)"
    using eq by simp
  then show ?case by blast
qed

lemma ci_label:
  "list_all2 (char_eq True) l u \<Longrightarrow> map canonicalize u = map canonicalize l"
  by (induction l u rule: list_all2_induct) (auto simp: char_eq_def)

lemma rating_canon: "map canonicalize (js ''Rating:'') = js ''RATING:''"
  by (simp add: js_def canonicalize_def)

lemma rating_at_shape:
  assumes "rating_at t = Some ds"
  shows "\<exists>lab ws st rest. t = lab @ ws @ st @ ds @ rest \<and> map canonicalize lab = js ''RATING:'' \<and>
           list_all is_space ws \<and> (st = [] \<or> st = js ''*'') \<and> ds \<noteq> [] \<and> list_all is_digit ds"
proof -
  from assms obtain r where r: "lit_match True (js ''Rating:'') t = Some r"
    and ds: "ds = takeWhile is_digit (skip_star (dropWhile is_space r))" "ds \<noteq> []"
    by (auto simp: rating_at_alt split: option.splits if_splits)
  from lit_match_decomp[OF r] obtain lab where lab: "t = lab @ r" "list_all2 (char_eq True) (js ''Rating:'') lab"
    by blast
  define ws where "ws = takeWhile is_space r"
  define r1 where "r1 = dropWhile is_space r"
  define st where "st = (if r1 \<noteq> [] \<and> hd r1 = 0x2A then js ''*'' else [])"
  define rest where "rest = dropWhile is_digit (skip_star r1)"
  have "r = ws @ r1" by (simp add: ws_def r1_def)
  moreover have "r1 = st @ skip_star r1"
    by (cases r1) (auto simp: st_def skip_star_def js_def)
  moreover have "skip_star r1 = ds @ rest"
    by (simp add: ds r1_def rest_def)
  ultimately have "t = lab @ ws @ st @ ds @ rest" using lab by simp
  moreover have "list_all is_space ws" 
    by (simp add: ws_def list_all_iff) (meson set_takeWhileD)
  moreover have "list_all is_digit ds"
    by (simp add: ds list_all_iff) (meson set_takeWhileD)
  moreover have "map canonicalize lab = js ''RATING:''"
    using ci_label[OF lab(2)] rating_canon by simp
  moreover have "st = [] \<or> st = js ''*''" by (simp add: st_def)
  ultimately show ?thesis using ds(2) by blast
qed

lemma rating_match_at_shape:
  assumes "rating_match_at t = Some ds"
  shows "\<exists>pre lab ws st rest. t = pre @ lab @ ws @ st @ ds @ rest \<and> map canonicalize lab = js ''RATING:'' \<and>
           list_all is_space ws \<and> (st = [] \<or> st = js ''*'') \<and> ds \<noteq> [] \<and> list_all is_digit ds"
proof -
  from assms consider "rating_at t = Some ds"
    | s1 where "lit_match True (js ''Numeric '') t = Some s1" "rating_at s1 = Some ds"
    by (auto simp: rating_match_at_def split: option.splits)
  then show ?thesis
  proof cases
    case 1
    from rating_at_shape[OF 1] show ?thesis by (metis append_Nil)
  next
    case 2
    from lit_match_decomp[OF 2(1)] obtain u where "t = u @ s1" by blast
    with rating_at_shape[OF 2(2)] show ?thesis by (metis append_assoc)
  qed
qed

lemma first_rating_shape:
  assumes "first_suffix rating_match_at text = Some ds"
  shows "\<exists>pre lab ws st rest. text = pre @ lab @ ws @ st @ ds @ rest \<and> map canonicalize lab = js ''RATING:'' \<and>
           list_all is_space ws \<and> (st = [] \<or> st = js ''*'') \<and> ds \<noteq> [] \<and> list_all is_digit ds"
proof -
  from first_suffix_Some[OF assms] obtain pre t where t: "text = pre @ t" "rating_match_at t = Some ds"
    by blast
  from rating_match_at_shape[OF t(2)] t(1) show ?thesis by (metis append_assoc)
qed

lemma digit_facts: "is_digit c \<Longrightarrow> \<not> is_space c \<and> c \<noteq> 0x2D \<and> c \<noteq> 0x2B"
  using space_not_digit[of c] by (auto simp: is_digit_def)

lemma parseInt_digits:
  assumes "ds \<noteq> []" "list_all is_digit ds"
  shows "parseInt ds = Some (int (decimal ds))"
proof -
  from assms obtain c cs where ds: "ds = c # cs" and c: "is_digit c"
    by (cases ds) auto
  have tw: "takeWhile is_digit ds = ds" using assms(2) by (simp add: list_all_iff)
  have dw: "dropWhile is_space ds = ds" using ds digit_facts[OF c] by simp
  have u: "(case ds of [] \<Rightarrow> [] | c # cs \<Rightarrow> if c = 0x2D \<or> c = 0x2B then cs else ds) = ds"
    using ds digit_facts[OF c] by simp
  have n: "(case ds of [] \<Rightarrow> False | c # _ \<Rightarrow> c = 0x2D) = False"
    using ds digit_facts[OF c] by simp
  show ?thesis unfolding parseInt_def Let_def dw u n tw using assms(1) by simp
qed

lemma parse_rating_eq:
  "parse_rating text =
     (case first_suffix rating_match_at text of None \<Rightarrow> 0
      | Some ds \<Rightarrow> if decimal ds \<le> 10 then int (decimal ds) else 0)"
proof (cases "first_suffix rating_match_at text")
  case None
  then show ?thesis by (simp add: parse_rating_def rating_exec)
next
  case (Some ds)
  from first_rating_shape[OF Some] have "ds \<noteq> []" "list_all is_digit ds" by auto
  then show ?thesis using Some parseInt_digits[of ds]
    by (simp add: parse_rating_def rating_exec)
qed

section \<open>The cloud-drive pattern\<close>

lemma star_match_via: "star_match p k s = Some res \<Longrightarrow> \<exists>s'. k s' = Some res"
  by (induction s) (auto split: if_splits option.splits)

lemma rmatch_via_cont: "rmatch ic r k s g = Some res \<Longrightarrow> \<exists>s' g'. k s' g' = Some res"
proof (induction r arbitrary: k s g)
  case (Lit l)
  then show ?case by (auto split: option.splits)
next
  case (Class p)
  then show ?case by (auto split: list.splits if_splits)
next
  case (Cat a b)
  from Cat.prems have "rmatch ic a (rmatch ic b k) s g = Some res" by (simp add: rmatch_Cat)
  from Cat.IH(1)[OF this] obtain s' g' where "rmatch ic b k s' g' = Some res" by blast
  from Cat.IH(2)[OF this] show ?case .
next
  case (Alt a b)
  then show ?case by (auto split: option.splits)
next
  case (Opt a)
  then show ?case by (auto split: option.splits)
next
  case (Star p)
  then have "star_match p (\<lambda>s'. k s' g) s = Some res" by simp
  from star_match_via[OF this] show ?case by blast
next
  case (Plus p)
  then obtain c cs where "star_match p (\<lambda>s'. k s' g) cs = Some res"
    by (auto split: list.splits if_splits)
  from star_match_via[OF this] show ?case by blast
next
  case (Group a)
  from Group.prems have "rmatch ic a (\<lambda>s' g'. k s' (Some (take (length s - length s') s))) s g = Some res"
    by simp
  from Group.IH[OF this] show ?case by blast
qed

lemma cat_via: "rmatch ic (Cat a b) k s g = Some res \<Longrightarrow> \<exists>s' g'. rmatch ic b k s' g' = Some res"
  using rmatch_via_cont[of ic a "rmatch ic b k" s g res] by (simp add: rmatch_Cat)

lemma gd_capture:
  assumes "rmatch False googleDriveRegex (\<lambda>s' g. Some g) s g0 = Some g"
  shows "\<exists>fileId. g = Some fileId \<and> fileId \<noteq> [] \<and> list_all is_file_id_char fileId"
proof -
  from assms obtain s' g' where "rmatch False (Group (Plus is_file_id_char)) (\<lambda>s' g. Some g) s' g' = Some g"
    unfolding googleDriveRegex_def by (blast dest: cat_via)
  then have "takeWhile is_file_id_char s' \<noteq> []" "g = Some (takeWhile is_file_id_char s')"
    by (auto simp only: group_plus split: if_splits)
  moreover have "list_all is_file_id_char (takeWhile is_file_id_char s')"
    by (simp add: list_all_iff) (meson set_takeWhileD)
  ultimately show ?thesis by blast
qed

lemma regex_exec_Some:
  "regex_exec ic r s = Some g \<Longrightarrow> \<exists>t. rmatch ic r (\<lambda>s' g. Some g) t None = Some g"
  using first_suffix_Some[of "\<lambda>t. rmatch ic r (\<lambda>s' g. Some g) t None" s g]
  by (auto simp: regex_exec_first_suffix)

lemma gd_exec_capture:
  "regex_exec False googleDriveRegex l = Some g \<Longrightarrow>
     \<exists>fileId. g = Some fileId \<and> fileId \<noteq> [] \<and> list_all is_file_id_char fileId"
  by (blast dest: regex_exec_Some gd_capture)

lemma lit_match_keeps: "lit_match ic l s = Some r \<Longrightarrow> list_all P s \<Longrightarrow> list_all P r"
  by (induction ic l s rule: lit_match.induct) (auto split: if_splits)

lemma lit_match_blocked: "list_all P s \<Longrightarrow> \<not> P p \<Longrightarrow> lit_match False (p # ps) s = None"
  by (cases s) (auto simp: char_eq_def)

lemma colon_not_id: "\<not> is_file_id_char 0x3A"
  by (simp add: is_file_id_char_def)

lemma gd_at_ids:
  assumes "list_all is_file_id_char s"
  shows "rmatch False googleDriveRegex (\<lambda>s' g. Some g) s None = None"
proof -
  have blocked: "lit_match False (js ''://'') t = None" if "list_all is_file_id_char t" for t
    using lit_match_blocked[OF that colon_not_id] by (simp add: js_def)
  show ?thesis
  proof (cases "lit_match False (js ''http'') s")
    case None
    then show ?thesis by (simp add: googleDriveRegex_def)
  next
    case (Some s1)
    from lit_match_keeps[OF Some assms] have s1: "list_all is_file_id_char s1" .
    have "lit_match False (js ''://'') s2 = None" if "lit_match False (js ''s'') s1 = Some s2" for s2
      using blocked lit_match_keeps[OF that s1] by simp
    then show ?thesis using Some blocked[OF s1]
      by (simp add: googleDriveRegex_def split: option.splits)
  qed
qed

lemma gd_exec_ids:
  "list_all is_file_id_char s \<Longrightarrow> regex_exec False googleDriveRegex s = None"
proof (induction s)
  case Nil
  then show ?case using gd_at_ids[of "[]"] by simp
next
  case (Cons c cs)
  then show ?case using gd_at_ids[of "c # cs"] by simp
qed

lemma gd_at_other:
  "c \<noteq> 0x68 \<Longrightarrow> rmatch False googleDriveRegex (\<lambda>s' g. Some g) (c # cs) None = None"
  by (simp add: googleDriveRegex_def js_def char_eq_def)

lemma gd_at_direct:
  "rmatch False googleDriveRegex (\<lambda>s' g. Some g) (direct_download @ fid) None = None"
  by (simp add: googleDriveRegex_def direct_download_def js_def char_eq_def)

lemma gd_exec_direct:
  assumes "list_all is_file_id_char fid"
  shows "regex_exec False googleDriveRegex (direct_download @ fid) = None"
proof -
  have dd: "direct_download = 0x68 # js ''ttps://drive.google.com/uc?export=download&id=''"
    by (simp add: direct_download_def js_def)
  have "regex_exec False googleDriveRegex (direct_download @ fid)
      = regex_exec False googleDriveRegex (js ''ttps://drive.google.com/uc?export=download&id='' @ fid)"
    using gd_at_direct[of fid] by (simp add: dd)
  also have "\<dots> = regex_exec False googleDriveRegex fid"
    by (simp add: js_def gd_at_other)
  also have "\<dots> = None" using assms by (rule gd_exec_ids)
  finally show ?thesis .
qed

lemma takeWhile_run:
  "list_all p xs \<Longrightarrow> rest = [] \<or> \<not> p (hd rest) \<Longrightarrow> takeWhile p (xs @ rest) = xs"
  by (induction xs) (auto simp: takeWhile_eq_Nil_iff dest: hd_in_set)

lemma gd_at_share:
  assumes "scheme = js ''http'' \<or> scheme = js ''https''"
    and "www = [] \<or> www = js ''www.''"
    and "kind = js ''file/d/'' \<or> kind = js ''open?id=''"
    and "fid \<noteq> []" "list_all is_file_id_char fid" "rest = [] \<or> \<not> is_file_id_char (hd rest)"
  shows "rmatch False googleDriveRegex (\<lambda>s' g. Some g)
           (scheme @ js ''://'' @ www @ js ''drive.google.com/'' @ kind @ fid @ rest) None = Some (Some fid)"
proof -
  have run: "rmatch False (Group (Plus is_file_id_char)) (\<lambda>s' g. Some g) (fid @ rest) None = Some (Some fid)"
    using assms(4-6) by (simp only: group_plus takeWhile_run) simp
  from assms(1-3) show ?thesis
    by (elim disjE) (simp_all add: googleDriveRegex_def js_def char_eq_def run del: rmatch.simps(8))
qed

lemma gd_exec_share:
  assumes "scheme = js ''http'' \<or> scheme = js ''https''"
    and "www = [] \<or> www = js ''www.''"
    and "kind = js ''file/d/'' \<or> kind = js ''open?id=''"
    and "fid \<noteq> []" "list_all is_file_id_char fid" "rest = [] \<or> \<not> is_file_id_char (hd rest)"
  shows "regex_exec False googleDriveRegex
           (scheme @ js ''://'' @ www @ js ''drive.google.com/'' @ kind @ fid @ rest) = Some (Some fid)"
proof -
  obtain c cs where "scheme @ js ''://'' @ www @ js ''drive.google.com/'' @ kind @ fid @ rest = c # cs"
    using assms(1) by (cases scheme) (auto simp: js_def)
  then show ?thesis using gd_at_share[OF assms] by simp
qed

section \<open>Scores and single rows\<close>

lemma parse_rating_bounds: "0 \<le> parse_rating text \<and> parse_rating text \<le> 10"
  by (auto simp: parse_rating_def split: option.splits)

lemma score_of_response_eq:
  "score_of_response text =
     \<lparr>rating = parse_rating text,
      summary = (case first_suffix summary_label_at text of None \<Rightarrow> no_summary
                 | Some r \<Rightarrow> trim (rest_of_line r))\<rparr>"
  by (simp add: score_of_response_def parse_summary_eq)

lemma score_of_response_bounds:
  "0 \<le> rating (score_of_response text) \<and> rating (score_of_response text) \<le> 10"
  using parse_rating_bounds[of "text"] by (simp add: score_of_response_eq)

lemma compareWithLLM_bounds:
  "compareWithLLM e i content jd = (tr, Inr sc) \<Longrightarrow> 0 \<le> rating sc \<and> rating sc \<le> 10"
  using score_of_response_bounds
  by (auto simp: compareWithLLM_def not_configured_def missing_content_def api_error_def
      split: option.splits if_splits sum.splits llm_outcome.splits)

lemma extractPdfData_text:
  "extractPdfData e i l = (tr, Inr (Some t)) \<Longrightarrow> t \<noteq> [] \<and> trim t \<noteq> []"
  by (auto simp: extractPdfData_def Let_def
      split: if_splits jsval.splits fetch_outcome.splits option.splits pdf_outcome.splits)

lemma acquire_text:
  "acquire e i row = (tr, Inr (Some t)) \<Longrightarrow> t \<noteq> [] \<and> trim t \<noteq> []"
  by (auto simp: acquire_def Let_def dest: extractPdfData_text split: if_splits prod.splits)

lemma has_text_acquire:
  "acquire e i row = (tr, Inr content) \<Longrightarrow>
     has_text content = (case content of None \<Rightarrow> False | Some t \<Rightarrow> trim t \<noteq> [])"
  by (cases content) (auto simp: has_text_def dest: acquire_text)

lemma acquire_no_link:
  "\<not> truthy (get_prop row (js ''resume_link'')) \<Longrightarrow>
     acquire e i row = ([Emit (ProcessingUpdate None (NoPdfUrl (display_email row i)))], Inr None)"
  by (simp add: acquire_def Let_def)

lemma convertible_display_email:
  "convertible (display_email row i) = convertible (get_prop row (js ''email''))"
  by (cases "get_prop row (js ''email'')") (simp_all add: display_email_def)

lemma process_row_no_link:
  "\<not> truthy (get_prop row (js ''resume_link'')) \<Longrightarrow> convertible (get_prop row (js ''email'')) \<Longrightarrow>
     process_row e txtData n i row =
       ([Emit (ProcessingUpdate None (ProcessingResume (i + 1) n (display_email row i))),
         Emit (ProcessingUpdate None (NoPdfUrl (display_email row i)))],
        Inr (processedRow row False 0 skipped_summary, False, False))"
  by (simp add: process_row_def acquire_no_link has_text_def Let_def convertible_display_email)

lemma process_row_no_link_calls:
  "\<not> truthy (get_prop row (js ''resume_link'')) \<Longrightarrow>
     eff \<in> set (fst (process_row e txtData n i row)) \<Longrightarrow> call_index eff = None"
  by (auto simp: process_row_def acquire_no_link has_text_def Let_def split: if_splits)

lemma process_row_Inr:
  assumes "process_row e txtData n i row = (tr, Inr (r, ex, c))"
  shows "\<exists>tr1 content. acquire e i row = (tr1, Inr content) \<and> ex = has_text content \<and>
           c = counted_row e txtData i row \<and>
           r = (case llmReport e txtData i row of
                  None \<Rightarrow> processedRow row False 0 skipped_summary
                | Some report \<Rightarrow> processedRow row True (rating report) (summary report)) \<and>
           (llmReport e txtData i row = None \<longleftrightarrow> \<not> has_text content)"
proof -
  have conv: "convertible (display_email row i)"
    using assms by (auto simp: process_row_def Let_def split: if_splits)
  obtain tr1 a where a: "acquire e i row = (tr1, a)" by (cases "acquire e i row")
  with assms conv obtain content where content: "a = Inr content"
    by (cases a) (auto simp: process_row_def Let_def)
  show ?thesis
  proof (cases "has_text content")
    case False
    with assms a content conv show ?thesis
      by (auto simp: process_row_def Let_def llmReport_def counted_row_def)
  next
    case True
    obtain tr2 b where b: "compareWithLLM e i content txtData = (tr2, b)"
      by (cases "compareWithLLM e i content txtData")
    with assms a content True conv obtain report where report: "b = Inr report"
      by (cases b) (auto simp: process_row_def Let_def)
    from compareWithLLM_bounds b report have "0 \<le> rating report" by blast
    then have "(rating report > 0 \<or> summary report \<noteq> js ''LLM not configured.'') = (report \<noteq> not_configured)"
      by (cases report) (auto simp: not_configured_def)
    with assms a content True b report conv show ?thesis
      by (auto simp: process_row_def Let_def llmReport_def counted_row_def)
  qed
qed

lemma process_row_trace:
  "eff \<in> set (fst (process_row e txtData n i row)) \<Longrightarrow>
     \<not> is_terminal eff \<and> (call_index eff = None \<or> call_index eff = Some i)"
  by (auto simp: process_row_def acquire_def extractPdfData_def compareWithLLM_def Let_def
      split: if_splits prod.splits sum.splits jsval.splits fetch_outcome.splits option.splits
        pdf_outcome.splits llm_outcome.splits)

lemma extractPdfData_string:
  "is_string l \<Longrightarrow> \<exists>tr content. extractPdfData e i l = (tr, Inr content)"
  by (cases l)
     (auto simp: extractPdfData_def Let_def
       split: fetch_outcome.splits option.splits pdf_outcome.splits)

lemma acquire_completes:
  "well_formed_row row \<Longrightarrow> \<exists>tr content. acquire e i row = (tr, Inr content)"
  using extractPdfData_string[of "get_prop row (js ''resume_link'')" e i]
  by (auto simp: acquire_def well_formed_row_def Let_def split: if_splits)

lemma compareWithLLM_completes:
  "description_ok jobDescription \<Longrightarrow>
     \<exists>tr sc. compareWithLLM e i content jobDescription = (tr, Inr sc)"
  by (cases jobDescription)
     (auto simp: compareWithLLM_def build_prompt_def
       split: option.splits llm_outcome.splits)

lemma process_row_completes:
  assumes "well_formed_row row" "description_ok txtData"
  shows "\<exists>tr r ex c. process_row e txtData n i row = (tr, Inr (r, ex, c))"
proof -
  from assms(1) have conv: "convertible (display_email row i)"
    by (simp add: convertible_display_email well_formed_row_def)
  from acquire_completes[OF assms(1)] obtain tr1 content where
    a: "acquire e i row = (tr1, Inr content)" by blast
  from compareWithLLM_completes[OF assms(2)] obtain tr2 sc where
    c: "compareWithLLM e i content txtData = (tr2, Inr sc)" by blast
  from conv a c show ?thesis by (auto simp: process_row_def Let_def)
qed

section \<open>The loop and the handler\<close>

lemma process_rows_completes:
  assumes "list_all well_formed_row rows" "description_ok txtData"
  shows "\<exists>tr st'. process_rows e txtData n i rows st = (tr, Inr st')"
  using assms(1)
proof (induction rows arbitrary: i st)
  case Nil
  then show ?case by simp
next
  case (Cons row rows)
  then have w: "well_formed_row row" and ws: "list_all well_formed_row rows" by simp_all
  from process_row_completes[OF w assms(2)] obtain tr1 r ex c where
    p: "process_row e txtData n i row = (tr1, Inr (r, ex, c))" by blast
  from Cons.IH[OF ws] obtain tr2 st' where
    "process_rows e txtData n (i + 1) rows
       \<lparr>processedResumes = processedResumes st @ [r],
        successfulExtractions = successfulExtractions st + (if ex then 1 else 0),
        successfulLLMCalls = successfulLLMCalls st + (if c then 1 else 0)\<rparr> = (tr2, Inr st')"
    by blast
  with p show ?case by simp
qed

lemma run_job_completes:
  "list_all well_formed_row csvData \<Longrightarrow> description_ok txtData \<Longrightarrow>
     \<not> isl (snd (run_job e csvData txtData))"
  using process_rows_completes[of csvData txtData e "length csvData" 0 initial_state]
  by (auto simp: run_job_def)


lemma process_rows_Inr:
  assumes "process_rows e txtData n i rows st = (tr, Inr st')"
  shows "processedResumes st' =
           processedResumes st @ map (\<lambda>(j, row). row_result e txtData j row) (enumerate i rows) \<and>
         successfulLLMCalls st' =
           successfulLLMCalls st + length (filter (\<lambda>(j, row). counted_row e txtData j row) (enumerate i rows))"
  using assms
proof (induction rows arbitrary: i st tr)
  case Nil
  then show ?case by simp
next
  case (Cons row rows)
  obtain tr1 a where a: "process_row e txtData n i row = (tr1, a)"
    by (cases "process_row e txtData n i row")
  with Cons.prems obtain r ex c where rc: "a = Inr (r, ex, c)"
    by (cases a) auto
  define st1 where "st1 = \<lparr>processedResumes = processedResumes st @ [r],
      successfulExtractions = successfulExtractions st + (if ex then 1 else 0),
      successfulLLMCalls = successfulLLMCalls st + (if c then 1 else 0)\<rparr>"
  obtain tr2 where rest: "process_rows e txtData n (i + 1) rows st1 = (tr2, Inr st')"
    using Cons.prems a rc by (auto simp: st1_def split: prod.splits)
  from process_row_Inr[OF a[unfolded rc]]
  have r: "r = row_result e txtData i row" and c: "c = counted_row e txtData i row"
    by (auto simp: row_result_def)
  from Cons.IH[OF rest] r c show ?case
    by (simp add: st1_def)
qed

lemma process_rows_ok:
  assumes "process_rows e txtData n i rows st = (tr, Inr st')" "j < length rows"
  shows "\<exists>trj r ex c. process_row e txtData n (i + j) (rows ! j) = (trj, Inr (r, ex, c))"
  using assms
proof (induction rows arbitrary: i st tr j)
  case Nil
  then show ?case by simp
next
  case (Cons row rows)
  obtain tr1 a where a: "process_row e txtData n i row = (tr1, a)"
    by (cases "process_row e txtData n i row")
  with Cons.prems obtain r ex c where rc: "a = Inr (r, ex, c)"
    by (cases a) auto
  define st1 where "st1 = \<lparr>processedResumes = processedResumes st @ [r],
      successfulExtractions = successfulExtractions st + (if ex then 1 else 0),
      successfulLLMCalls = successfulLLMCalls st + (if c then 1 else 0)\<rparr>"
  obtain tr2 where rest: "process_rows e txtData n (i + 1) rows st1 = (tr2, Inr st')"
    using Cons.prems a rc by (auto simp: st1_def split: prod.splits)
  show ?case
  proof (cases j)
    case 0
    with a rc show ?thesis by simp
  next
    case (Suc j')
    with Cons.prems have "j' < length rows" by simp
    from Cons.IH[OF rest this] Suc show ?thesis by simp
  qed
qed

lemma process_rows_trace:
  "eff \<in> set (fst (process_rows e txtData n k rows st)) \<Longrightarrow>
     \<not> is_terminal eff \<and>
     (call_index eff = None \<or> (\<exists>j<length rows. call_index eff = Some (k + j) \<and>
        eff \<in> set (fst (process_row e txtData n (k + j) (rows ! j)))))"
proof (induction rows arbitrary: k st)
  case Nil
  then show ?case by simp
next
  case (Cons row rows)
  obtain tr1 a where a: "process_row e txtData n k row = (tr1, a)"
    by (cases "process_row e txtData n k row")
  show ?case
  proof (cases "eff \<in> set tr1")
    case True
    then have "eff \<in> set (fst (process_row e txtData n k row))" using a by simp
    from process_row_trace[OF this] this show ?thesis by force
  next
    case False
    with Cons.prems a obtain r ex c where rc: "a = Inr (r, ex, c)"
      by (cases a) auto
    define st1 where "st1 = \<lparr>processedResumes = processedResumes st @ [r],
      successfulExtractions = successfulExtractions st + (if ex then 1 else 0),
      successfulLLMCalls = successfulLLMCalls st + (if c then 1 else 0)\<rparr>"
    have "eff \<in> set (fst (process_rows e txtData n (k + 1) rows st1))"
      using Cons.prems a rc False by (auto simp: st1_def split: prod.splits)
    from Cons.IH[OF this] have t: "\<not> is_terminal eff"
      and d: "call_index eff = None \<or> (\<exists>j<length rows. call_index eff = Some (k + 1 + j) \<and>
           eff \<in> set (fst (process_row e txtData n (k + 1 + j) (rows ! j))))"
      by blast+
    show ?thesis
    proof (cases "call_index eff = None")
      case True
      with t show ?thesis by simp
    next
      case False
      with d obtain j where "j < length rows" "call_index eff = Some (k + 1 + j)"
        "eff \<in> set (fst (process_row e txtData n (k + 1 + j) (rows ! j)))"
        by blast
      then have "Suc j < length (row # rows) \<and> call_index eff = Some (k + Suc j) \<and>
           eff \<in> set (fst (process_row e txtData n (k + Suc j) ((row # rows) ! Suc j)))"
        by simp
      with t show ?thesis by blast
    qed
  qed
qed

lemma run_job_rows:
  assumes "run_job e csvData txtData = (tr, Inr st)"
  shows "length (processedResumes st) = length csvData"
    and "i < length csvData \<Longrightarrow> processedResumes st ! i = row_result e txtData i (csvData ! i)"
    and "successfulLLMCalls st =
           length (filter (\<lambda>(j, row). counted_row e txtData j row) (enumerate 0 csvData))"
proof -
  from process_rows_Inr[OF assms[unfolded run_job_def]]
  have p: "processedResumes st = map (\<lambda>(j, row). row_result e txtData j row) (enumerate 0 csvData)"
    and c: "successfulLLMCalls st =
           length (filter (\<lambda>(j, row). counted_row e txtData j row) (enumerate 0 csvData))"
    by (simp_all add: initial_state_def)
  from p show "length (processedResumes st) = length csvData" by simp
  from p show "processedResumes st ! i = row_result e txtData i (csvData ! i)" if "i < length csvData"
    using that by (simp add: nth_enumerate_eq)
  from c show "successfulLLMCalls st =
           length (filter (\<lambda>(j, row). counted_row e txtData j row) (enumerate 0 csvData))" .
qed

lemma run_job_row:
  assumes "run_job e csvData txtData = (tr, Inr st)" "i < length csvData"
  obtains tr1 content where "acquire e i (csvData ! i) = (tr1, Inr content)"
    and "(llmReport e txtData i (csvData ! i) = None) = (\<not> has_text content)"
proof -
  from process_rows_ok[OF assms(1)[unfolded run_job_def] assms(2)]
  obtain trj r ex c where "process_row e txtData (length csvData) i (csvData ! i) = (trj, Inr (r, ex, c))"
    by auto
  from process_row_Inr[OF this] that show ?thesis by auto
qed

lemma run_job_trace:
  "eff \<in> set (fst (run_job e csvData txtData)) \<Longrightarrow>
     \<not> is_terminal eff \<and>
     (call_index eff = None \<or> (\<exists>j<length csvData. call_index eff = Some j \<and>
        eff \<in> set (fst (process_row e txtData (length csvData) j (csvData ! j)))))"
  using process_rows_trace[of eff e txtData "length csvData" 0 csvData initial_state]
  by (simp add: run_job_def)

lemma startProcessing_eq:
  "startProcessing e csvData txtData =
     Emit (ProcessingUpdate (Some (js ''analysing all resume'')) Received) #
     fst (run_job e csvData txtData) @
     (case snd (run_job e csvData txtData) of
        Inr st \<Rightarrow> [Emit (ProcessingUpdate (Some (js ''converting to csv'')) AllProcessed),
                   Emit (ProcessingComplete (processedResumes st) (closing_report st))]
      | Inl err \<Rightarrow> [Emit (ProcessingError generic_message err)])"
  by (simp add: startProcessing_def split: prod.splits sum.splits)

lemma key_facts:
  "js ''pdfExtractionStatus'' \<noteq> js ''Rating''"
  "js ''pdfExtractionStatus'' \<noteq> js ''Summary''"
  "js ''Rating'' \<noteq> js ''Summary''"
  by (simp_all add: js_def)

lemma processedRow_fields:
  "processedRow row ex r s (js ''pdfExtractionStatus'') = Some (JStr (if ex then js ''Success'' else js ''Failed''))"
  "processedRow row ex r s (js ''Rating'') = Some (JNum (of_int r))"
  "processedRow row ex r s (js ''Summary'') = Some (JStr s)"
  using key_facts by (simp_all add: processedRow_def)

lemma filter_terminal_none:
  "(\<And>x. x \<in> set xs \<Longrightarrow> \<not> is_terminal x) \<Longrightarrow> filter is_terminal xs = []"
  by (induction xs) auto

lemma run_job_cases:
  obtains (ok) tr st where "run_job e csvData txtData = (tr, Inr st)"
        | (err) tr er where "run_job e csvData txtData = (tr, Inl er)"
  by (cases "run_job e csvData txtData"; cases "snd (run_job e csvData txtData)") auto

lemma row_result_form:
  "\<exists>extracted r s. row_result e txtData i row = processedRow row extracted r s"
  by (auto simp: row_result_def split: option.splits)

lemma complete_emitted:
  "run_job e csvData txtData = (tr, Inr st) \<Longrightarrow>
     last (startProcessing e csvData txtData) =
       Emit (ProcessingComplete (processedResumes st) (closing_report st))"
  by (simp add: startProcessing_eq)

section \<open>Facts about the link and the handler\<close>

lemma row_result_status:
  assumes "acquire e i row = (tr1, Inr content)"
    and "(llmReport e txtData i row = None) = (\<not> has_text content)"
  shows "row_result e txtData i row (js ''pdfExtractionStatus'') =
           Some (JStr (if (case snd (acquire e i row) of Inr (Some t) \<Rightarrow> trim t \<noteq> [] | _ \<Rightarrow> False)
                       then js ''Success'' else js ''Failed''))"
proof -
  from has_text_acquire[OF assms(1)]
  have "has_text content = (case snd (acquire e i row) of Inr (Some t) \<Rightarrow> trim t \<noteq> [] | _ \<Rightarrow> False)"
    using assms(1) by (simp split: option.splits)
  with assms(2) show ?thesis
    by (cases "llmReport e txtData i row") (auto simp: row_result_def processedRow_fields)
qed

lemma effective_cases:
  "(regex_exec False googleDriveRegex l = None \<and> effectiveResumeLink l = l) \<or>
   (\<exists>fileId. regex_exec False googleDriveRegex l = Some (Some fileId) \<and> fileId \<noteq> [] \<and>
      list_all is_file_id_char fileId \<and> effectiveResumeLink l = direct_download @ fileId)"
proof (cases "regex_exec False googleDriveRegex l")
  case None
  then show ?thesis by (simp add: effectiveResumeLink_def)
next
  case (Some g)
  from gd_exec_capture[OF Some] Some show ?thesis
    by (auto simp: effectiveResumeLink_def)
qed

lemma effective_direct:
  "list_all is_file_id_char fid \<Longrightarrow> effectiveResumeLink (direct_download @ fid) = direct_download @ fid"
  by (simp add: effectiveResumeLink_def gd_exec_direct)

lemma effective_idem: "effectiveResumeLink (effectiveResumeLink l) = effectiveResumeLink l"
  using effective_cases[of l] effective_direct by auto

lemma somewhere_append: "P t \<Longrightarrow> somewhere P (pre @ t)"
proof (induction pre)
  case Nil
  then show ?case by (cases t) auto
next
  case (Cons c cs)
  then show ?case by simp
qed

lemma rating_needs_label:
  assumes "first_suffix rating_match_at response = Some ds"
  shows "has_rating_label response"
proof -
  from first_suffix_Some[OF assms] obtain pre t where t: "response = pre @ t" "rating_match_at t = Some ds"
    by blast
  from t(2) consider "rating_at t = Some ds"
    | s1 where "lit_match True (js ''Numeric '') t = Some s1" "rating_at s1 = Some ds"
    by (auto simp: rating_match_at_def split: option.splits)
  then obtain pre' t' where "response = pre' @ t'" "rating_at t' = Some ds"
  proof cases
    case 1
    with t(1) that show ?thesis by blast
  next
    case 2
    from lit_match_decomp[OF 2(1)] obtain u where "t = u @ s1" by blast
    with t(1) have "response = (pre @ u) @ s1" by simp
    with 2(2) that show ?thesis by blast
  qed
  then show ?thesis
    unfolding has_rating_label_def
    by (auto simp: rating_at_def intro!: somewhere_append split: option.splits)
qed

lemma row_result_no_link:
  "\<not> truthy (get_prop row (js ''resume_link'')) \<Longrightarrow>
     row_result e txtData i row = processedRow row False 0 skipped_summary"
  by (simp add: row_result_def llmReport_def acquire_no_link has_text_def)

lemma in_startProcessing:
  assumes "eff \<in> set (startProcessing e csvData txtData)"
  shows "call_index eff = None \<and> \<not> is_generate_call eff \<or> eff \<in> set (fst (run_job e csvData txtData))"
  using assms by (auto simp: startProcessing_eq split: sum.splits)


lemma example_job_completes:
  "\<not> isl (snd (run_job example_env example_rows example_job_description))"
  by code_simp

section \<open>The claims\<close>

text \<open>
  C1. No failure of a fetch, of the extraction or of the scoring call leaves the loop: a job
  whose rows are well formed and whose job description can be interpolated completes,
  whatever \<open>fetch\<close>, \<open>pdfParse\<close> and the language model answer. And a job that
  completes ends with \<open>processingComplete\<close>, whose report has exactly one row for each
  submitted record, in the order of the batch: row \<open>i\<close> is record \<open>i\<close> with the three
  result fields written over it, every other field as it was submitted.
\<close>

theorem report_has_one_row_per_record:
  "(list_all well_formed_row csvData \<and> description_ok txtData \<longrightarrow>
      \<not> isl (snd (run_job e csvData txtData))) \<and>
   (run_job e csvData txtData = (tr, Inr st) \<longrightarrow>
      last (startProcessing e csvData txtData) =
        Emit (ProcessingComplete (processedResumes st) (closing_report st)) \<and>
      length (processedResumes st) = length csvData \<and>
      (\<forall>i<length csvData.
         (\<exists>extracted r s. processedResumes st ! i = processedRow (csvData ! i) extracted r s) \<and>
         (processedResumes st ! i) (js ''pdfExtractionStatus'') \<noteq> None \<and>
         (processedResumes st ! i) (js ''Rating'') \<noteq> None \<and>
         (processedResumes st ! i) (js ''Summary'') \<noteq> None \<and>
         (\<forall>k. k \<noteq> js ''pdfExtractionStatus'' \<and> k \<noteq> js ''Rating'' \<and> k \<noteq> js ''Summary'' \<longrightarrow>
              (processedResumes st ! i) k = (csvData ! i) k)))"
proof (intro conjI impI)
  assume "list_all well_formed_row csvData \<and> description_ok txtData"
  then show "\<not> isl (snd (run_job e csvData txtData))"
    by (simp add: run_job_completes)
next
  assume r: "run_job e csvData txtData = (tr, Inr st)"
  show "last (startProcessing e csvData txtData) =
        Emit (ProcessingComplete (processedResumes st) (closing_report st))"
    by (rule complete_emitted[OF r])
  show "length (processedResumes st) = length csvData"
    by (rule run_job_rows(1)[OF r])
  show "\<forall>i<length csvData.
         (\<exists>extracted r s. processedResumes st ! i = processedRow (csvData ! i) extracted r s) \<and>
         (processedResumes st ! i) (js ''pdfExtractionStatus'') \<noteq> None \<and>
         (processedResumes st ! i) (js ''Rating'') \<noteq> None \<and>
         (processedResumes st ! i) (js ''Summary'') \<noteq> None \<and>
         (\<forall>k. k \<noteq> js ''pdfExtractionStatus'' \<and> k \<noteq> js ''Rating'' \<and> k \<noteq> js ''Summary'' \<longrightarrow>
              (processedResumes st ! i) k = (csvData ! i) k)"
  proof (intro allI impI)
    fix i
    assume i: "i < length csvData"
    from row_result_form[of e txtData i "csvData ! i"] obtain extracted x s where
      "row_result e txtData i (csvData ! i) = processedRow (csvData ! i) extracted x s" by blast
    with run_job_rows(2)[OF r i]
    have p: "processedResumes st ! i = processedRow (csvData ! i) extracted x s" by simp
    have "\<forall>k. k \<noteq> js ''pdfExtractionStatus'' \<and> k \<noteq> js ''Rating'' \<and> k \<noteq> js ''Summary'' \<longrightarrow>
              (processedResumes st ! i) k = (csvData ! i) k"
      by (simp add: p processedRow_def)
    moreover have "\<exists>extracted r s. processedResumes st ! i = processedRow (csvData ! i) extracted r s"
      using p by blast
    ultimately show "(\<exists>extracted r s. processedResumes st ! i = processedRow (csvData ! i) extracted r s) \<and>
         (processedResumes st ! i) (js ''pdfExtractionStatus'') \<noteq> None \<and>
         (processedResumes st ! i) (js ''Rating'') \<noteq> None \<and>
         (processedResumes st ! i) (js ''Summary'') \<noteq> None \<and>
         (\<forall>k. k \<noteq> js ''pdfExtractionStatus'' \<and> k \<noteq> js ''Rating'' \<and> k \<noteq> js ''Summary'' \<longrightarrow>
              (processedResumes st ! i) k = (csvData ! i) k)"
      by (simp add: p processedRow_fields)
  qed
qed

theorem report_has_one_row_per_record_witness:
  "list_all well_formed_row example_rows \<and> description_ok example_job_description \<and>
   \<not> isl (snd (run_job example_env example_rows example_job_description)) \<and>
   last (startProcessing example_env example_rows example_job_description) =
     Emit (ProcessingComplete
       (processedResumes (projr (snd (run_job example_env example_rows example_job_description))))
       (closing_report (projr (snd (run_job example_env example_rows example_job_description))))) \<and>
   length (processedResumes (projr (snd (run_job example_env example_rows example_job_description)))) = 4 \<and>
   (processedResumes (projr (snd (run_job example_env example_rows example_job_description))) ! 1)
      (js ''resume_link'') = (example_rows ! 1) (js ''resume_link'')"
proof -
  have w: "list_all well_formed_row example_rows" by code_simp
  have d: "description_ok example_job_description" by (simp add: example_job_description_def)
  from w d report_has_one_row_per_record[of example_rows example_job_description example_env]
  have ok: "\<not> isl (snd (run_job example_env example_rows example_job_description))" by simp
  then obtain tr st where r: "run_job example_env example_rows example_job_description = (tr, Inr st)"
    by (cases rule: run_job_cases[of example_env example_rows example_job_description]) auto
  have len: "length example_rows = 4" by (simp add: example_rows_def)
  have k: "js ''resume_link'' \<noteq> js ''pdfExtractionStatus'' \<and> js ''resume_link'' \<noteq> js ''Rating'' \<and>
           js ''resume_link'' \<noteq> js ''Summary''"
    by (simp add: js_def)
  from report_has_one_row_per_record[of example_rows example_job_description example_env tr st] r len
  have "(processedResumes st ! 1) (js ''resume_link'') = (example_rows ! 1) (js ''resume_link'')"
    using k by simp
  with report_has_one_row_per_record[of example_rows example_job_description example_env tr st]
    r ok len w d
  show ?thesis by simp
qed

text \<open>
  C2. Whatever text the backend returns, the rating of the returned object is an integer
  between 0 and 10. It is 0 when the text holds no rating, and 0 when the digits that were
  matched do not parse or parse to a number outside the range. The same bounds hold for
  every object that \<open>compareWithLLM\<close> returns.
\<close>

theorem rating_in_range:
  "0 \<le> rating (score_of_response response) \<and> rating (score_of_response response) \<le> 10 \<and>
   (regex_exec True ratingRegex response = None \<longrightarrow> rating (score_of_response response) = 0) \<and>
   (regex_exec True ratingRegex response = Some (Some digits) \<and>
    (case parseInt digits of None \<Rightarrow> True | Some r \<Rightarrow> r < 0 \<or> 10 < r) \<longrightarrow>
      rating (score_of_response response) = 0) \<and>
   (compareWithLLM e i content jobDescription = (tr, Inr sc) \<longrightarrow> 0 \<le> rating sc \<and> rating sc \<le> 10)"
  using score_of_response_bounds[of response] compareWithLLM_bounds[of e i content jobDescription tr sc]
  by (auto simp: score_of_response_eq parse_rating_def split: option.splits)

theorem rating_in_range_witness:
  "regex_exec True ratingRegex (js ''Rating: 12/10 Summary: keen'') = Some (Some (js ''12'')) \<and>
   parseInt (js ''12'') = Some 12 \<and>
   rating (score_of_response (js ''Rating: 12/10 Summary: keen'')) = 0 \<and>
   regex_exec True ratingRegex (js ''A strong candidate.'') = None \<and>
   rating (score_of_response (js ''A strong candidate.'')) = 0 \<and>
   compareWithLLM example_env 3 (Some (js ''Python developer'')) example_job_description =
     ([GenerateCall 3 (Prompt (js ''Python developer'') example_job_description)], Inr api_error) \<and>
   0 \<le> rating api_error \<and> rating api_error \<le> 10"
proof -
  have m: "regex_exec True ratingRegex (js ''Rating: 12/10 Summary: keen'') = Some (Some (js ''12''))"
    by code_simp
  have p: "parseInt (js ''12'') = Some 12"
    by code_simp
  have n: "regex_exec True ratingRegex (js ''A strong candidate.'') = None"
    by code_simp
  have c: "compareWithLLM example_env 3 (Some (js ''Python developer'')) example_job_description =
     ([GenerateCall 3 (Prompt (js ''Python developer'') example_job_description)], Inr api_error)"
    by (simp add: compareWithLLM_def example_env_def example_client_def build_prompt_def
        example_job_description_def
        truncate8000_def js_def)
  from m p n c
    rating_in_range[of "js ''Rating: 12/10 Summary: keen''" "js ''12''" example_env 3
      "Some (js ''Python developer'')" example_job_description
      "[GenerateCall 3 (Prompt (js ''Python developer'') example_job_description)]" api_error]
    rating_in_range[of "js ''A strong candidate.''"]
  show ?thesis by simp
qed

text \<open>
  C3. In the report of a job that completes, the field \<open>pdfExtractionStatus\<close> of row
  \<open>i\<close> is \<open>Success\<close> when the acquisition phase of that row produced a text that is not
  empty after trimming, and \<open>Failed\<close> in every other case.
\<close>

theorem extraction_status_iff:
  assumes "run_job e csvData txtData = (tr, Inr st)" "i < length csvData"
  shows "(processedResumes st ! i) (js ''pdfExtractionStatus'') =
           Some (JStr (if (case snd (acquire e i (csvData ! i)) of
                             Inr (Some t) \<Rightarrow> trim t \<noteq> [] | _ \<Rightarrow> False)
                       then js ''Success'' else js ''Failed'')) \<and>
         js ''Success'' \<noteq> js ''Failed''"
proof -
  have "js ''Success'' \<noteq> js ''Failed''" by (simp add: js_def)
  moreover
  from run_job_row[OF assms] obtain tr1 content where
    "acquire e i (csvData ! i) = (tr1, Inr content)"
    "(llmReport e txtData i (csvData ! i) = None) = (\<not> has_text content)" .
  from row_result_status[OF this] run_job_rows(2)[OF assms]
  have "(processedResumes st ! i) (js ''pdfExtractionStatus'') =
           Some (JStr (if (case snd (acquire e i (csvData ! i)) of
                             Inr (Some t) \<Rightarrow> trim t \<noteq> [] | _ \<Rightarrow> False)
                       then js ''Success'' else js ''Failed''))"
    by simp
  ultimately show ?thesis by simp
qed

theorem extraction_status_iff_witness:
  "\<not> isl (snd (run_job example_env example_rows example_job_description)) \<and>
   (processedResumes (projr (snd (run_job example_env example_rows example_job_description))) ! 0)
      (js ''pdfExtractionStatus'') = Some (JStr (js ''Success'')) \<and>
   (processedResumes (projr (snd (run_job example_env example_rows example_job_description))) ! 1)
      (js ''pdfExtractionStatus'') = Some (JStr (js ''Failed''))"
proof -
  have ok: "\<not> isl (snd (run_job example_env example_rows example_job_description))"
    by (rule example_job_completes)
  have a0: "(case snd (acquire example_env 0 (example_rows ! 0)) of
               Inr (Some t) \<Rightarrow> trim t \<noteq> [] | _ \<Rightarrow> False) = True"
    by code_simp
  have a1: "(case snd (acquire example_env 1 (example_rows ! 1)) of
               Inr (Some t) \<Rightarrow> trim t \<noteq> [] | _ \<Rightarrow> False) = False"
    by code_simp
  have len: "0 < length example_rows" "1 < length example_rows"
    by (simp_all add: example_rows_def)
  obtain tr st where r: "run_job example_env example_rows example_job_description = (tr, Inr st)"
    using ok by (cases rule: run_job_cases[of example_env example_rows example_job_description]) auto
  from extraction_status_iff[OF r len(1)] extraction_status_iff[OF r len(2)] a0 a1 r ok
  show ?thesis by simp
qed

text \<open>
  C4. The link that is fetched is the link itself when the cloud-drive pattern occurs
  nowhere in it; otherwise it is the direct-download address built from the file
  identifier that the pattern captured, which is never empty. In particular a
  \<open>file/d/\<close> or \<open>open?id=\<close> address of the drive, with either scheme and with or
  without \<open>www.\<close>, is rewritten to the direct-download address of its identifier; a
  direct-download address is left as it is; and resolving twice is resolving once.
\<close>

theorem link_resolver:
  "(regex_exec False googleDriveRegex link = None \<longrightarrow> effectiveResumeLink link = link) \<and>
   (regex_exec False googleDriveRegex link \<noteq> None \<longrightarrow>
      (\<exists>fileId. regex_exec False googleDriveRegex link = Some (Some fileId) \<and> fileId \<noteq> [] \<and>
         list_all is_file_id_char fileId \<and> effectiveResumeLink link = direct_download @ fileId)) \<and>
   ((scheme = js ''http'' \<or> scheme = js ''https'') \<and> (www = [] \<or> www = js ''www.'') \<and>
    (kind = js ''file/d/'' \<or> kind = js ''open?id='') \<and>
    fid \<noteq> [] \<and> list_all is_file_id_char fid \<and> (rest = [] \<or> \<not> is_file_id_char (hd rest)) \<longrightarrow>
      effectiveResumeLink (scheme @ js ''://'' @ www @ js ''drive.google.com/'' @ kind @ fid @ rest) =
        direct_download @ fid) \<and>
   (list_all is_file_id_char fid \<longrightarrow>
      effectiveResumeLink (direct_download @ fid) = direct_download @ fid) \<and>
   effectiveResumeLink (effectiveResumeLink link) = effectiveResumeLink link"
proof (intro conjI impI)
  show "effectiveResumeLink link = link" if "regex_exec False googleDriveRegex link = None"
    using that by (simp add: effectiveResumeLink_def)
  show "\<exists>fileId. regex_exec False googleDriveRegex link = Some (Some fileId) \<and> fileId \<noteq> [] \<and>
         list_all is_file_id_char fileId \<and> effectiveResumeLink link = direct_download @ fileId"
    if "regex_exec False googleDriveRegex link \<noteq> None"
    using that effective_cases[of link] by auto
  show "effectiveResumeLink (scheme @ js ''://'' @ www @ js ''drive.google.com/'' @ kind @ fid @ rest) =
        direct_download @ fid"
    if "(scheme = js ''http'' \<or> scheme = js ''https'') \<and> (www = [] \<or> www = js ''www.'') \<and>
    (kind = js ''file/d/'' \<or> kind = js ''open?id='') \<and>
    fid \<noteq> [] \<and> list_all is_file_id_char fid \<and> (rest = [] \<or> \<not> is_file_id_char (hd rest))"
  proof -
    from that have "regex_exec False googleDriveRegex
           (scheme @ js ''://'' @ www @ js ''drive.google.com/'' @ kind @ fid @ rest) = Some (Some fid)"
      by (intro gd_exec_share) simp_all
    with that show ?thesis by (simp add: effectiveResumeLink_def)
  qed
  show "effectiveResumeLink (direct_download @ fid) = direct_download @ fid"
    if "list_all is_file_id_char fid"
    using that by (rule effective_direct)
  show "effectiveResumeLink (effectiveResumeLink link) = effectiveResumeLink link"
    by (rule effective_idem)
qed

theorem link_resolver_witness:
  "regex_exec False googleDriveRegex (js ''https://example.com/cv.pdf'') = None \<and>
   effectiveResumeLink (js ''https://example.com/cv.pdf'') = js ''https://example.com/cv.pdf'' \<and>
   regex_exec False googleDriveRegex (js ''see http://www.drive.google.com/open?id=Zz9&x=1'') =
     Some (Some (js ''Zz9'')) \<and>
   effectiveResumeLink (js ''see http://www.drive.google.com/open?id=Zz9&x=1'') =
     js ''https://drive.google.com/uc?export=download&id=Zz9'' \<and>
   effectiveResumeLink (js ''https://drive.google.com/file/d/1AbC-_x/view?usp=sharing'') =
     js ''https://drive.google.com/uc?export=download&id=1AbC-_x'' \<and>
   effectiveResumeLink (js ''https://drive.google.com/uc?export=download&id=1AbC-_x'') =
     js ''https://drive.google.com/uc?export=download&id=1AbC-_x''"
proof -
  have n: "regex_exec False googleDriveRegex (js ''https://example.com/cv.pdf'') = None"
    by code_simp
  have y: "regex_exec False googleDriveRegex (js ''see http://www.drive.google.com/open?id=Zz9&x=1'') =
     Some (Some (js ''Zz9''))"
    by code_simp
  have h: "(js ''https'' = js ''http'' \<or> js ''https'' = js ''https'') \<and> ([] = [] \<or> [] = js ''www.'') \<and>
    (js ''file/d/'' = js ''file/d/'' \<or> js ''file/d/'' = js ''open?id='') \<and>
    js ''1AbC-_x'' \<noteq> [] \<and> list_all is_file_id_char (js ''1AbC-_x'') \<and>
    (js ''/view?usp=sharing'' = [] \<or> \<not> is_file_id_char (hd (js ''/view?usp=sharing'')))"
    by (simp add: js_def is_file_id_char_def)
  have s: "js ''https'' @ js ''://'' @ [] @ js ''drive.google.com/'' @ js ''file/d/'' @ js ''1AbC-_x'' @ js ''/view?usp=sharing''
       = js ''https://drive.google.com/file/d/1AbC-_x/view?usp=sharing''"
    "direct_download @ js ''1AbC-_x'' = js ''https://drive.google.com/uc?export=download&id=1AbC-_x''"
    "direct_download @ js ''Zz9'' = js ''https://drive.google.com/uc?export=download&id=Zz9''"
    by (simp_all add: js_def direct_download_def)
  from link_resolver[of "js ''https://example.com/cv.pdf''" "js ''https''" "[]" "js ''file/d/''"
      "js ''1AbC-_x''" "js ''/view?usp=sharing''"]
    link_resolver[of "js ''see http://www.drive.google.com/open?id=Zz9&x=1''" "js ''https''" "[]"
      "js ''file/d/''" "js ''1AbC-_x''" "js ''/view?usp=sharing''"] n y h
  show ?thesis unfolding s(1,2) by (simp add: s(3))
qed

text \<open>
  The response \<open>Rating:*7\<close> is rated 7, although no integer follows its label, not even
  after white space: an asterisk stands between them.
\<close>

theorem rating_shape_counterexample:
  "rating (score_of_response (js ''Rating:*7'')) = 7 \<and> \<not> claimed_rating_shape (js ''Rating:*7'')"
  by code_simp

text \<open>
  C5, amended. The rating is read at the leftmost place of the response where the label
  \<open>Rating:\<close>, in any letter case and optionally preceded by \<open>Numeric\<close> and a space,
  is followed by optional white space, at most one asterisk and an integer; what follows
  the integer does not matter. The integer is the rating when it is at most 10, and the
  rating is 0 otherwise. So a response with a nonzero rating has this shape: a label, white
  space, an optional asterisk and the digits of the rating.
\<close>

theorem rating_extraction:
  "rating (score_of_response response) =
     (case first_suffix rating_match_at response of
        None \<Rightarrow> 0
      | Some ds \<Rightarrow> if decimal ds \<le> 10 then int (decimal ds) else 0) \<and>
   (rating (score_of_response response) \<noteq> 0 \<longrightarrow>
      (\<exists>pre lab ws st ds rest.
         response = pre @ lab @ ws @ st @ ds @ rest \<and>
         map canonicalize lab = js ''RATING:'' \<and> list_all is_space ws \<and>
         (st = [] \<or> st = js ''*'') \<and> ds \<noteq> [] \<and> list_all is_digit ds \<and>
         decimal ds \<le> 10 \<and> rating (score_of_response response) = int (decimal ds)))"
proof (cases "first_suffix rating_match_at response")
  case None
  then show ?thesis by (simp add: score_of_response_eq parse_rating_eq)
next
  case (Some ds)
  from first_rating_shape[OF Some] obtain pre lab ws st rest where shape:
    "response = pre @ lab @ ws @ st @ ds @ rest \<and> map canonicalize lab = js ''RATING:'' \<and>
     list_all is_space ws \<and> (st = [] \<or> st = js ''*'') \<and> ds \<noteq> [] \<and> list_all is_digit ds"
    by blast
  have eq: "rating (score_of_response response) = (if decimal ds \<le> 10 then int (decimal ds) else 0)"
    using Some by (simp add: score_of_response_eq parse_rating_eq)
  show ?thesis
  proof (intro conjI impI)
    show "rating (score_of_response response) =
     (case first_suffix rating_match_at response of
        None \<Rightarrow> 0
      | Some ds \<Rightarrow> if decimal ds \<le> 10 then int (decimal ds) else 0)"
      using eq Some by simp
    assume "rating (score_of_response response) \<noteq> 0"
    with eq have "decimal ds \<le> 10 \<and> rating (score_of_response response) = int (decimal ds)"
      by (simp split: if_splits)
    with shape show "\<exists>pre lab ws st ds rest.
         response = pre @ lab @ ws @ st @ ds @ rest \<and>
         map canonicalize lab = js ''RATING:'' \<and> list_all is_space ws \<and>
         (st = [] \<or> st = js ''*'') \<and> ds \<noteq> [] \<and> list_all is_digit ds \<and>
         decimal ds \<le> 10 \<and> rating (score_of_response response) = int (decimal ds)"
      by blast
  qed
qed

theorem rating_extraction_witness:
  "rating (score_of_response (js ''Numeric rating:  *9/10'')) = 9 \<and>
   first_suffix rating_match_at (js ''Numeric rating:  *9/10'') = Some (js ''9'')"
proof -
  have "first_suffix rating_match_at (js ''Numeric rating:  *9/10'') = Some (js ''9'')"
    by code_simp
  moreover have "decimal (js ''9'') = 9" by code_simp
  ultimately show ?thesis
    using rating_extraction[of "js ''Numeric rating:  *9/10''"] by simp
qed

text \<open>
  A response with a summary label and no rating label whose summary is nevertheless the
  fallback text: the backend wrote that text itself.
\<close>

theorem summary_fallback_counterexample:
  "summary (score_of_response (js ''Summary:Could not parse summary from LLM response.'')) = no_summary \<and>
   has_summary_label (js ''Summary:Could not parse summary from LLM response.'') \<and>
   \<not> has_rating_label (js ''Summary:Could not parse summary from LLM response.'')"
  by code_simp

text \<open>
  C6, amended. The two extractions do not depend on each other. A response without the
  label \<open>Rating:\<close> (in any letter case) is rated 0. A response without the label
  \<open>Summary:\<close> or \<open>Summarized Report:\<close> (in any letter case) gets the fallback summary;
  with such a label, the summary is the rest of the line after the first label and the
  white space behind it, trimmed, whether or not a rating is found.
\<close>

theorem rating_summary_independent:
  "(\<not> has_rating_label response \<longrightarrow> rating (score_of_response response) = 0) \<and>
   (\<not> has_summary_label response \<longrightarrow> summary (score_of_response response) = no_summary) \<and>
   summary (score_of_response response) =
     (case first_suffix summary_label_at response of
        None \<Rightarrow> no_summary
      | Some r \<Rightarrow> trim (rest_of_line r))"
proof -
  have "rating (score_of_response response) = 0" if "\<not> has_rating_label response"
  proof (cases "first_suffix rating_match_at response")
    case None
    then show ?thesis by (simp add: score_of_response_eq parse_rating_eq)
  next
    case (Some ds)
    from rating_needs_label[OF Some] that show ?thesis by simp
  qed
  then show ?thesis
    by (auto simp: score_of_response_eq has_summary_label_def)
qed

theorem rating_summary_independent_witness:
  "\<not> has_rating_label (js ''SUMMARY:  Good fit '') \<and>
   rating (score_of_response (js ''SUMMARY:  Good fit '')) = 0 \<and>
   summary (score_of_response (js ''SUMMARY:  Good fit '')) = js ''Good fit'' \<and>
   \<not> has_summary_label (js ''no labels here'') \<and>
   summary (score_of_response (js ''no labels here'')) = no_summary"
proof -
  have a: "\<not> has_rating_label (js ''SUMMARY:  Good fit '')" by code_simp
  have b: "\<not> has_summary_label (js ''no labels here'')" by code_simp
  have c: "(case first_suffix summary_label_at (js ''SUMMARY:  Good fit '') of
        None \<Rightarrow> no_summary | Some r \<Rightarrow> trim (rest_of_line r)) = js ''Good fit''"
    by code_simp
  from a b c rating_summary_independent[of "js ''SUMMARY:  Good fit ''"]
    rating_summary_independent[of "js ''no labels here''"]
  show ?thesis by simp
qed

text \<open>
  C7. For a row whose link is absent, \<open>null\<close> or empty (any falsy value), the job makes
  no fetch and no scoring call on behalf of that row. The turn of the loop for such a row,
  when its email can be printed, completes with the row marked \<open>Failed\<close>, rating 0 and
  the skip summary. And when the job completes, the final report holds at the row's place
  the record with \<open>pdfExtractionStatus\<close> \<open>Failed\<close>, \<open>Rating\<close> 0 and \<open>Summary\<close> the skip
  summary, every other field as it was submitted.
\<close>

theorem missing_link_row:
  assumes "i < length csvData" "\<not> truthy (get_prop (csvData ! i) (js ''resume_link''))"
  shows "(\<forall>eff\<in>set (startProcessing e csvData txtData). call_index eff \<noteq> Some i) \<and>
         (convertible (get_prop (csvData ! i) (js ''email'')) \<longrightarrow>
            snd (process_row e txtData (length csvData) i (csvData ! i)) =
              Inr (processedRow (csvData ! i) False 0 skipped_summary, False, False)) \<and>
         (\<forall>tr st. run_job e csvData txtData = (tr, Inr st) \<longrightarrow>
            last (startProcessing e csvData txtData) =
              Emit (ProcessingComplete (processedResumes st) (closing_report st)) \<and>
            processedResumes st ! i = processedRow (csvData ! i) False 0 skipped_summary \<and>
            (processedResumes st ! i) (js ''pdfExtractionStatus'') = Some (JStr (js ''Failed'')) \<and>
            (processedResumes st ! i) (js ''Rating'') = Some (JNum 0) \<and>
            (processedResumes st ! i) (js ''Summary'') =
              Some (JStr (js ''LLM analysis skipped due to no extracted PDF text.'')) \<and>
            (\<forall>k. k \<noteq> js ''pdfExtractionStatus'' \<and> k \<noteq> js ''Rating'' \<and> k \<noteq> js ''Summary'' \<longrightarrow>
                 (processedResumes st ! i) k = (csvData ! i) k))"
proof (intro conjI ballI allI impI)
  fix eff
  assume eff: "eff \<in> set (startProcessing e csvData txtData)"
  show "call_index eff \<noteq> Some i"
  proof
    assume c: "call_index eff = Some i"
    with in_startProcessing[OF eff] have "eff \<in> set (fst (run_job e csvData txtData))" by auto
    from run_job_trace[OF this] c
    have "eff \<in> set (fst (process_row e txtData (length csvData) i (csvData ! i)))" by auto
    from process_row_no_link_calls[OF assms(2) this] c show False by simp
  qed
next
  assume "convertible (get_prop (csvData ! i) (js ''email''))"
  from process_row_no_link[OF assms(2) this]
  show "snd (process_row e txtData (length csvData) i (csvData ! i)) =
              Inr (processedRow (csvData ! i) False 0 skipped_summary, False, False)"
    by simp
next
  fix tr st
  assume r: "run_job e csvData txtData = (tr, Inr st)"
  from run_job_rows(2)[OF r assms(1)] row_result_no_link[OF assms(2)]
  show p: "processedResumes st ! i = processedRow (csvData ! i) False 0 skipped_summary" by simp
  from complete_emitted[OF r]
  show "last (startProcessing e csvData txtData) =
              Emit (ProcessingComplete (processedResumes st) (closing_report st))" .
  show "(processedResumes st ! i) (js ''pdfExtractionStatus'') = Some (JStr (js ''Failed''))"
    by (simp add: p processedRow_fields)
  show "(processedResumes st ! i) (js ''Rating'') = Some (JNum 0)"
    by (simp add: p processedRow_fields)
  show "(processedResumes st ! i) (js ''Summary'') =
              Some (JStr (js ''LLM analysis skipped due to no extracted PDF text.''))"
    by (simp add: p processedRow_fields skipped_summary_def)
  fix k
  assume "k \<noteq> js ''pdfExtractionStatus'' \<and> k \<noteq> js ''Rating'' \<and> k \<noteq> js ''Summary''"
  then show "(processedResumes st ! i) k = (csvData ! i) k"
    by (simp add: p processedRow_def)
qed

theorem missing_link_row_witness:
  "list_all (\<lambda>eff. call_index eff \<noteq> Some 2)
     (startProcessing example_env example_rows example_job_description) \<and>
   snd (process_row example_env example_job_description (length example_rows) 2 (example_rows ! 2)) =
     Inr (processedRow (example_rows ! 2) False 0 skipped_summary, False, False) \<and>
   \<not> isl (snd (run_job example_env example_rows example_job_description)) \<and>
   (processedResumes (projr (snd (run_job example_env example_rows example_job_description))) ! 2)
      (js ''pdfExtractionStatus'') = Some (JStr (js ''Failed'')) \<and>
   (processedResumes (projr (snd (run_job example_env example_rows example_job_description))) ! 2)
      (js ''Rating'') = Some (JNum 0) \<and>
   (processedResumes (projr (snd (run_job example_env example_rows example_job_description))) ! 2)
      (js ''Summary'') = Some (JStr (js ''LLM analysis skipped due to no extracted PDF text.'')) \<and>
   (processedResumes (projr (snd (run_job example_env example_rows example_job_description))) ! 2)
      (js ''email'') = Some (JStr (js ''c@d.e''))"
proof -
  have len: "2 < length example_rows" by (simp add: example_rows_def)
  have link: "\<not> truthy (get_prop (example_rows ! 2) (js ''resume_link''))" by code_simp
  have email: "convertible (get_prop (example_rows ! 2) (js ''email''))" by code_simp
  have em: "(example_rows ! 2) (js ''email'') = Some (JStr (js ''c@d.e''))" by code_simp
  have k: "js ''email'' \<noteq> js ''pdfExtractionStatus'' \<and> js ''email'' \<noteq> js ''Rating'' \<and>
           js ''email'' \<noteq> js ''Summary''"
    by (simp add: js_def)
  have ok: "\<not> isl (snd (run_job example_env example_rows example_job_description))"
    by (rule example_job_completes)
  then obtain tr st where r: "run_job example_env example_rows example_job_description = (tr, Inr st)"
    by (cases rule: run_job_cases[of example_env example_rows example_job_description]) auto
  note t = missing_link_row[OF len link, of example_env example_job_description]
  from t have a: "list_all (\<lambda>eff. call_index eff \<noteq> Some 2)
     (startProcessing example_env example_rows example_job_description)"
    by (simp add: list_all_iff)
  from t email
  have b: "snd (process_row example_env example_job_description (length example_rows) 2 (example_rows ! 2)) =
     Inr (processedRow (example_rows ! 2) False 0 skipped_summary, False, False)"
    by blast
  from t r
  have c: "(processedResumes st ! 2) (js ''pdfExtractionStatus'') = Some (JStr (js ''Failed''))"
    "(processedResumes st ! 2) (js ''Rating'') = Some (JNum 0)"
    "(processedResumes st ! 2) (js ''Summary'') =
       Some (JStr (js ''LLM analysis skipped due to no extracted PDF text.''))"
    by blast+
  from t r k
  have d: "(processedResumes st ! 2) (js ''email'') = (example_rows ! 2) (js ''email'')"
    by blast
  from a b c d em r ok show ?thesis by simp
qed

text \<open>
  C8. A job emits exactly one terminal event, and it is the last thing it does: when the
  loop completes, \<open>processingComplete\<close> with a report of one row for each record; when an
  exception leaves the loop, \<open>processingError\<close> with the generic message and the error, and
  then no \<open>processingComplete\<close> and no report at all.
\<close>

theorem one_terminal_event:
  "filter is_terminal (startProcessing e csvData txtData) = [last (startProcessing e csvData txtData)] \<and>
   last (startProcessing e csvData txtData) =
     (case snd (run_job e csvData txtData) of
        Inr st \<Rightarrow> Emit (ProcessingComplete (processedResumes st) (closing_report st))
      | Inl err \<Rightarrow> Emit (ProcessingError generic_message err)) \<and>
   (case snd (run_job e csvData txtData) of
      Inr st \<Rightarrow> length (processedResumes st) = length csvData
    | Inl err \<Rightarrow> True)"
proof -
  have none: "filter is_terminal (fst (run_job e csvData txtData)) = []"
    by (rule filter_terminal_none) (simp add: run_job_trace)
  show ?thesis
  proof (cases rule: run_job_cases[of e csvData txtData])
    case (ok tr st)
    with none run_job_rows(1)[OF ok] show ?thesis by (simp add: startProcessing_eq)
  next
    case (err tr er)
    with none show ?thesis by (simp add: startProcessing_eq)
  qed
qed

theorem one_terminal_event_witness:
  "filter is_terminal (startProcessing example_env bad_rows example_job_description) =
     [Emit (ProcessingError generic_message NotAFunction)]"
proof -
  have "isl (snd (run_job example_env bad_rows example_job_description)) \<and>
        projl (snd (run_job example_env bad_rows example_job_description)) = NotAFunction"
    by code_simp
  then have "snd (run_job example_env bad_rows example_job_description) = Inl NotAFunction"
    by (cases "snd (run_job example_env bad_rows example_job_description)") auto
  with one_terminal_event[of example_env bad_rows example_job_description]
  show ?thesis by simp
qed



text \<open>
  C10. When a job completes, the counter of scorings in its closing message is the number
  of rows that were scored and whose score object is not exactly rating 0 with the summary
  \<open>LLM not configured.\<close>; the object returned after a failed backend call is not that
  object, so such a row is counted.
\<close>

theorem scoring_counter:
  assumes "run_job e csvData txtData = (tr, Inr st)"
  shows "successfulLLMCalls st =
           length (filter (\<lambda>(i, row). case llmReport e txtData i row of
                                        None \<Rightarrow> False
                                      | Some report \<Rightarrow>
                                          report \<noteq> \<lparr>rating = 0, summary = js ''LLM not configured.''\<rparr>)
                     (enumerate 0 csvData)) \<and>
         api_error \<noteq> \<lparr>rating = 0, summary = js ''LLM not configured.''\<rparr> \<and>
         last (startProcessing e csvData txtData) =
           Emit (ProcessingComplete (processedResumes st)
             (js ''Successfully extracted text from '' @ show_nat (successfulExtractions st) @
              js '' PDFs and ran '' @ show_nat (successfulLLMCalls st) @ js '' LLM analyses.''))"
proof -
  have "api_error \<noteq> \<lparr>rating = 0, summary = js ''LLM not configured.''\<rparr>"
    by (simp add: api_error_def js_def)
  with run_job_rows(3)[OF assms, unfolded counted_row_def not_configured_def]
    complete_emitted[OF assms, unfolded closing_report_def]
  show ?thesis by simp
qed

theorem scoring_counter_witness:
  "\<not> isl (snd (run_job example_env example_rows example_job_description)) \<and>
   llmReport example_env example_job_description 3 (example_rows ! 3) = Some api_error \<and>
   successfulLLMCalls (projr (snd (run_job example_env example_rows example_job_description))) = 2 \<and>
   last (startProcessing example_env example_rows example_job_description) =
     Emit (ProcessingComplete
       (processedResumes (projr (snd (run_job example_env example_rows example_job_description))))
       (js ''Successfully extracted text from 2 PDFs and ran 2 LLM analyses.''))"
proof -
  have ok: "\<not> isl (snd (run_job example_env example_rows example_job_description))"
    by (rule example_job_completes)
  then obtain tr st where r: "run_job example_env example_rows example_job_description = (tr, Inr st)"
    by (cases rule: run_job_cases[of example_env example_rows example_job_description]) auto
  have c: "length (filter (\<lambda>(i, row). case llmReport example_env example_job_description i row of
                                        None \<Rightarrow> False
                                      | Some report \<Rightarrow>
                                          report \<noteq> \<lparr>rating = 0, summary = js ''LLM not configured.''\<rparr>)
                     (enumerate 0 example_rows)) = 2"
    by code_simp
  have x: "successfulExtractions (projr (snd (run_job example_env example_rows example_job_description))) = 2"
    by code_simp
  have a: "llmReport example_env example_job_description 3 (example_rows ! 3) = Some api_error"
    by code_simp
  have s: "show_nat 2 = js ''2''" by code_simp
  have t: "js ''Successfully extracted text from '' @ js ''2'' @ js '' PDFs and ran '' @ js ''2'' @ js '' LLM analyses.''
      = js ''Successfully extracted text from 2 PDFs and ran 2 LLM analyses.''"
    by (simp add: js_def)
  from scoring_counter[OF r] r c x a ok show ?thesis by (simp add: s t)
qed

end
